theory Spec2Isabelle
  imports Complex_Main "HOL-Library.Product_Lexorder" "HOL-Library.AList"
begin

chapter \<open>The program\<close>

section \<open>Calendar days and JavaScript Date values\<close>

text \<open>
  A calendar day is a triple (year, month 1..12, day of month) of the proleptic Gregorian
  calendar. The text of a date, "YYYY-MM-DD", is modelled by the triple of its three numbers
  (what \<^verbatim>\<open>split('-').map(Number)\<close> yields). Triples are compared
  lexicographically, which is chronological order for days that exist.

  A JavaScript Date is an instant. In a host zone with a fixed offset it is determined by
  its local calendar day and the milliseconds since local midnight, and comparing two Dates
  (on their time values) is the lexicographic comparison of these pairs. Daylight-saving
  shifts and the finite range of the time value (100,000,000 days around 1970) are outside
  the model, and so are floating-point rounding (numbers are reals) and the NaN of an
  unparsable text.
\<close>

type_synonym ymd = "int \<times> int \<times> int"

type_synonym jsDate = "ymd \<times> int"

definition isLeap :: "int \<Rightarrow> bool" where
  "isLeap y = (y mod 4 = 0 \<and> (y mod 100 \<noteq> 0 \<or> y mod 400 = 0))"

definition daysInMonth :: "int \<Rightarrow> int \<Rightarrow> int" where
  "daysInMonth y m =
     (if m = 2 then (if isLeap y then 29 else 28)
      else if m = 4 \<or> m = 6 \<or> m = 9 \<or> m = 11 then 30 else 31)"

definition nextDay :: "ymd \<Rightarrow> ymd" where
  "nextDay = (\<lambda>(y, m, d).
     if d < daysInMonth y m then (y, m, d + 1)
     else if m < 12 then (y, m + 1, 1) else (y + 1, 1, 1))"

definition prevDay :: "ymd \<Rightarrow> ymd" where
  "prevDay = (\<lambda>(y, m, d).
     if 1 < d then (y, m, d - 1)
     else if 1 < m then (y, m - 1, daysInMonth y (m - 1)) else (y - 1, 12, 31))"

definition addDays :: "int \<Rightarrow> ymd \<Rightarrow> ymd" where
  "addDays n dt = (if 0 \<le> n then (nextDay ^^ nat n) dt else (prevDay ^^ nat (- n)) dt)"

text \<open>
  ECMAScript's MakeDay(year, month, date): the first day of the month found after carrying
  the 0-based month index into the year, moved by date - 1 days. This is what makes
  \<^verbatim>\<open>new Date(2024, 1, 31)\<close> the 2nd of March.
\<close>

definition MakeDay :: "int \<Rightarrow> int \<Rightarrow> int \<Rightarrow> ymd" where
  "MakeDay year month dt = addDays (dt - 1) (year + month div 12, month mod 12 + 1, 1)"

definition msPerDay :: int where
  "msPerDay = 86400000"

text \<open>\<^verbatim>\<open>new Date(y, m, d)\<close>: local midnight; a year 0..99 means 1900 + year.\<close>

definition newDate :: "int \<Rightarrow> int \<Rightarrow> int \<Rightarrow> jsDate" where
  "newDate y m d = (MakeDay (if 0 \<le> y \<and> y \<le> 99 then 1900 + y else y) m d, 0)"

definition getFullYear :: "jsDate \<Rightarrow> int" where
  "getFullYear dt = fst (fst dt)"

definition getMonth :: "jsDate \<Rightarrow> int" where
  "getMonth dt = fst (snd (fst dt)) - 1"

definition getDate :: "jsDate \<Rightarrow> int" where
  "getDate dt = snd (snd (fst dt))"

definition setDate :: "jsDate \<Rightarrow> int \<Rightarrow> jsDate" where
  "setDate dt k = (MakeDay (getFullYear dt) (getMonth dt) k, snd dt)"

definition setFullYear :: "jsDate \<Rightarrow> int \<Rightarrow> jsDate" where
  "setFullYear dt y = (MakeDay y (getMonth dt) (getDate dt), snd dt)"

text \<open>\<^verbatim>\<open>setHours(0,0,0,0)\<close> and \<^verbatim>\<open>setHours(23,59,59,999)\<close>.\<close>

definition startOfDay :: "jsDate \<Rightarrow> jsDate" where
  "startOfDay dt = (fst dt, 0)"

definition endOfDay :: "jsDate \<Rightarrow> jsDate" where
  "endOfDay dt = (fst dt, msPerDay - 1)"

text \<open>
  The host zone is given by \<open>off\<close>, the value of \<^verbatim>\<open>getTimezoneOffset()\<close>:
  minutes to add to local time to reach UTC (-330 in India, 300 in New York).
  \<^verbatim>\<open>new Date("YYYY-MM-DD")\<close> is midnight UTC of that day, and
  \<^verbatim>\<open>toISOString().split('T')[0]\<close> is the UTC day of an instant.
\<close>

definition carryDays :: "ymd \<Rightarrow> int \<Rightarrow> jsDate" where
  "carryDays day ms = (addDays (ms div msPerDay) day, ms mod msPerDay)"

definition parseDate :: "int \<Rightarrow> ymd \<Rightarrow> jsDate" where
  "parseDate off day = carryDays day (- (off * 60000))"

definition toISODate :: "int \<Rightarrow> jsDate \<Rightarrow> ymd" where
  "toISODate off dt = fst (carryDays (fst dt) (snd dt + off * 60000))"

text \<open>A day that exists, with a year the Date constructor takes as it is.\<close>

definition validDate :: "ymd \<Rightarrow> bool" where
  "validDate = (\<lambda>(y, m, d). 100 \<le> y \<and> 1 \<le> m \<and> m \<le> 12 \<and> 1 \<le> d \<and> d \<le> daysInMonth y m)"

section \<open>The data model (types.ts)\<close>

datatype TransactionType = INCOME | EXPENSE

datatype ReturnPeriod = Monthly | Quarterly | HalfYearly | Yearly | Maturity

text \<open>
  An optional field is an option; \<open>maturityDate = None\<close> stands for the empty text,
  which JavaScript takes as false.
\<close>

record InvestorDetails =
  investorName :: string
  roi :: real
  returnPeriod :: ReturnPeriod
  durationMonths :: int
  maturityDate :: "ymd option"
  purpose :: "string option"
  periodicInterestAmount :: "real option"

record Transaction =
  txId :: string
  userId :: string
  amount :: real
  txType :: TransactionType
  category :: string
  paymentMode :: "string option"
  date :: ymd
  txNote :: "string option"
  timestamp :: jsDate
  investorDetails :: "InvestorDetails option"
  linkedTransactionId :: "string option"

record User =
  uId :: string
  uName :: string
  createdAt :: int

record GroupedCategory =
  group :: string
  items :: "string list"

section \<open>The transaction form (TransactionForm)\<close>

text \<open>
  \<open>maturityDate\<close> of the form: the date field and the duration field are texts; \<open>None\<close>
  is an empty date, and an empty or non-numeric duration. The result \<open>None\<close> is the
  empty text. The day is rebuilt from the local fields of the Date.
\<close>

definition formMaturityDate :: "ymd option \<Rightarrow> int option \<Rightarrow> ymd option" where
  "formMaturityDate dateField duration =
     (case dateField of None \<Rightarrow> None
      | Some (y, m, d) \<Rightarrow>
          (case duration of None \<Rightarrow> None
           | Some monthsToAdd \<Rightarrow> Some (fst (newDate y (m - 1 + monthsToAdd) d))))"

text \<open>
  \<open>interestAmount\<close> of the form: amount and rate are texts, \<open>None\<close> when empty or not a
  number.
\<close>

definition formInterestAmount :: "real option \<Rightarrow> real option \<Rightarrow> ReturnPeriod \<Rightarrow> real" where
  "formInterestAmount amountField roiField rp =
     (case amountField of None \<Rightarrow> 0
      | Some principalAmt \<Rightarrow>
          (case roiField of None \<Rightarrow> 0
           | Some rate \<Rightarrow>
               (if rp = Maturity then 0
                else let annualInterest = (principalAmt * rate) / 100 in
                  (case rp of
                     Monthly \<Rightarrow> annualInterest / 12
                   | Quarterly \<Rightarrow> annualInterest / 4
                   | HalfYearly \<Rightarrow> annualInterest / 2
                   | Yearly \<Rightarrow> annualInterest
                   | Maturity \<Rightarrow> 0))))"

section \<open>Projected interest dates\<close>

text \<open>
  The next due date, as every projection of the repository computes it (five times, in the
  same words): the Date built from the start year, the start month moved by
  \<open>monthsToAdd * multiplier\<close> and the start day, and, when its day of month is not the
  start day, \<^verbatim>\<open>setDate(0)\<close>: the last day of the month before.
\<close>

definition periodDate :: "int \<Rightarrow> int \<Rightarrow> int \<Rightarrow> int \<Rightarrow> int \<Rightarrow> jsDate" where
  "periodDate sY sM sD monthsToAdd multiplier =
     (let nextDate = newDate sY (sM - 1 + monthsToAdd * multiplier) sD
      in if getDate nextDate \<noteq> sD then setDate nextDate 0 else nextDate)"

definition monthsToAddOf :: "ReturnPeriod \<Rightarrow> int" where
  "monthsToAddOf rp =
     (if rp = Monthly then 1 else if rp = Quarterly then 3
      else if rp = HalfYearly then 6 else if rp = Yearly then 12 else 0)"

text \<open>The dashboard compares with the day of the start Date instead.\<close>

definition clampTo :: "int \<Rightarrow> jsDate \<Rightarrow> jsDate" where
  "clampTo startDay nextDate = (if getDate nextDate \<noteq> startDay then setDate nextDate 0 else nextDate)"

section \<open>The investor ledger (InvestorDashboard)\<close>

record VirtualTransaction = Transaction +
  isVirtual :: bool
  relatedTransactionId :: "string option"

fun showNat :: "nat \<Rightarrow> string" where
  "showNat n = (if n < 10 then [char_of (48 + n)] else showNat (n div 10) @ [char_of (48 + n mod 10)])"

definition periodName :: "ReturnPeriod \<Rightarrow> string" where
  "periodName rp =
     (case rp of Monthly \<Rightarrow> ''Monthly'' | Quarterly \<Rightarrow> ''Quarterly''
      | HalfYearly \<Rightarrow> ''Half-Yearly'' | Yearly \<Rightarrow> ''Yearly'' | Maturity \<Rightarrow> ''Maturity'')"

text \<open>The interest amount: the stored periodic amount, or the one derived from the rate.\<close>

definition interestAmountOf :: "Transaction \<Rightarrow> InvestorDetails \<Rightarrow> real" where
  "interestAmountOf t det =
     (let interestAmount = (case periodicInterestAmount det of None \<Rightarrow> 0 | Some a \<Rightarrow> a)
      in if interestAmount = 0 \<and> roi det \<noteq> 0 then
           (let annual = (amount t * roi det) / 100
            in if returnPeriod det = Monthly then annual / 12
               else if returnPeriod det = Quarterly then annual / 4
               else if returnPeriod det = HalfYearly then annual / 2
               else if returnPeriod det = Yearly then annual
               else annual * (real_of_int (durationMonths det) / 12))
         else interestAmount)"

definition maturityEntry :: "int \<Rightarrow> Transaction \<Rightarrow> real \<Rightarrow> ymd \<Rightarrow> VirtualTransaction" where
  "maturityEntry off t interestAmount mat =
     \<lparr> txId = ''int-'' @ txId t @ ''-maturity'', userId = userId t, amount = interestAmount,
       txType = EXPENSE, category = ''Interest Due'', paymentMode = None, date = mat,
       txNote = Some ''Interest Due on Maturity'', timestamp = parseDate off mat,
       investorDetails = None, linkedTransactionId = None, isVirtual = True,
       relatedTransactionId = Some (txId t) \<rparr>"

definition interestEntry ::
  "int \<Rightarrow> Transaction \<Rightarrow> real \<Rightarrow> ReturnPeriod \<Rightarrow> nat \<Rightarrow> jsDate \<Rightarrow> VirtualTransaction" where
  "interestEntry off t interestAmount rp count nextDate =
     \<lparr> txId = ''int-'' @ txId t @ ''-'' @ showNat count, userId = userId t,
       amount = interestAmount, txType = EXPENSE, category = ''Interest Due'',
       paymentMode = None, date = toISODate off nextDate,
       txNote = Some (''Interest Due ('' @ periodName rp @ '') #'' @ showNat count),
       timestamp = nextDate, investorDetails = None, linkedTransactionId = None,
       isVirtual = True, relatedTransactionId = Some (txId t) \<rparr>"

text \<open>
  The while loop of \<open>generateInterestEntries\<close>. At the head of every iteration
  \<open>nextDate\<close> is the due date of the current \<open>multiplier\<close>, so the loop state is the
  multiplier, the count and the entries. The check \<open>monthsToAdd = 0\<close> that the source
  makes just before the loop stands in the loop condition, where it makes the recursion
  total.
\<close>

function interestLoop ::
  "int \<Rightarrow> jsDate \<Rightarrow> Transaction \<Rightarrow> InvestorDetails \<Rightarrow> real \<Rightarrow> int \<Rightarrow> nat \<Rightarrow> nat
   \<Rightarrow> VirtualTransaction list \<Rightarrow> VirtualTransaction list" where
  "interestLoop off today t det interestAmount monthsToAdd multiplier count entries =
     (case date t of (sY, sM, sD) \<Rightarrow>
        if 0 < monthsToAdd \<and> periodDate sY sM sD monthsToAdd (int multiplier) \<le> today then
          (let entries' = entries @ [interestEntry off t interestAmount (returnPeriod det) count
                                       (periodDate sY sM sD monthsToAdd (int multiplier))];
               multiplier' = multiplier + 1;
               nextDate' = periodDate sY sM sD monthsToAdd (int multiplier')
           in if (case maturityDate det of None \<Rightarrow> False
                  | Some mat \<Rightarrow> parseDate off mat < nextDate')
              then entries'
              else interestLoop off today t det interestAmount monthsToAdd multiplier'
                     (count + 1) entries')
        else entries)"
  by pat_completeness auto

definition generateInterestEntries :: "int \<Rightarrow> jsDate \<Rightarrow> Transaction \<Rightarrow> VirtualTransaction list" where
  "generateInterestEntries off now t =
     (case investorDetails t of None \<Rightarrow> []
      | Some det \<Rightarrow>
          if roi det = 0 then []
          else
            (let today = endOfDay now;
                 interestAmount = interestAmountOf t det
             in if interestAmount \<le> 0 then []
                else if returnPeriod det = Maturity then
                  (case maturityDate det of None \<Rightarrow> []
                   | Some mat \<Rightarrow>
                       if parseDate off mat \<le> today
                       then [maturityEntry off t interestAmount mat] else [])
                else
                  (let monthsToAdd = monthsToAddOf (returnPeriod det)
                   in if monthsToAdd = 0 then []
                      else interestLoop off today t det interestAmount monthsToAdd 1 1 [])))"

section \<open>The payment calendar (UpcomingMaturities)\<close>

text \<open>
  The time filter is one of '30', '60', '90' and 'ALL'. Of a payment event the model keeps
  every field but \<open>id\<close> and \<open>details.dayCount\<close>, which are computed from the
  millisecond time value.
\<close>

datatype TimeFilter = Next30 | Next60 | Next90 | AllFuture

datatype EventType = PRINCIPAL | INTEREST

record PaymentEvent =
  evType :: EventType
  evDate :: jsDate
  evAmount :: real
  evInvestorName :: string
  evPurpose :: "string option"
  evNote :: "string option"
  transactionId :: string
  evRoi :: real
  evPeriod :: ReturnPeriod

definition filterDays :: "TimeFilter \<Rightarrow> int" where
  "filterDays timeFilter = (case timeFilter of Next30 \<Rightarrow> 30 | Next60 \<Rightarrow> 60 | Next90 \<Rightarrow> 90 | AllFuture \<Rightarrow> 0)"

definition windowEnd :: "jsDate \<Rightarrow> TimeFilter \<Rightarrow> jsDate" where
  "windowEnd today timeFilter =
     (if timeFilter = AllFuture then setFullYear today (getFullYear today + 5)
      else setDate today (getDate today + filterDays timeFilter))"

definition principalEvent :: "Transaction \<Rightarrow> InvestorDetails \<Rightarrow> jsDate \<Rightarrow> PaymentEvent" where
  "principalEvent t det mDate =
     \<lparr> evType = PRINCIPAL, evDate = mDate, evAmount = amount t,
       evInvestorName = investorName det, evPurpose = purpose det, evNote = txNote t,
       transactionId = txId t, evRoi = roi det, evPeriod = returnPeriod det \<rparr>"

definition interestEvent :: "Transaction \<Rightarrow> InvestorDetails \<Rightarrow> real \<Rightarrow> jsDate \<Rightarrow> PaymentEvent" where
  "interestEvent t det periodicAmount nextDate =
     \<lparr> evType = INTEREST, evDate = nextDate, evAmount = periodicAmount,
       evInvestorName = investorName det, evPurpose = purpose det, evNote = None,
       transactionId = txId t, evRoi = roi det, evPeriod = returnPeriod det \<rparr>"

text \<open>
  The loop of \<open>allEvents\<close>, at most 50 iterations; as in the ledger, \<open>nextDate\<close> is the
  due date of the current \<open>multiplier\<close>.
\<close>

function eventLoop ::
  "jsDate \<Rightarrow> jsDate \<Rightarrow> jsDate \<Rightarrow> Transaction \<Rightarrow> InvestorDetails \<Rightarrow> real \<Rightarrow> int \<Rightarrow> nat \<Rightarrow> nat
   \<Rightarrow> PaymentEvent list \<Rightarrow> PaymentEvent list" where
  "eventLoop today endDate mDate t det periodicAmount monthsToAdd multiplier safetyCounter events =
     (case date t of (sY, sM, sD) \<Rightarrow>
        if safetyCounter < 50 then
          (let nextDate = periodDate sY sM sD monthsToAdd (int multiplier)
           in if mDate < nextDate then events
              else if today \<le> nextDate then
                (if endDate < nextDate then events
                 else eventLoop today endDate mDate t det periodicAmount monthsToAdd
                        (multiplier + 1) (safetyCounter + 1)
                        (events @ [interestEvent t det periodicAmount nextDate]))
              else eventLoop today endDate mDate t det periodicAmount monthsToAdd
                     (multiplier + 1) (safetyCounter + 1) events)
        else events)"
  by pat_completeness auto

termination
  by (relation "measure (\<lambda>(today, endDate, mDate, t, det, periodicAmount, monthsToAdd, multiplier,
        safetyCounter, events). 50 - safetyCounter)") auto

declare eventLoop.simps [simp del]

definition txEvents :: "int \<Rightarrow> jsDate \<Rightarrow> jsDate \<Rightarrow> PaymentEvent list \<Rightarrow> Transaction \<Rightarrow> PaymentEvent list" where
  "txEvents off today endDate events t =
     (case investorDetails t of None \<Rightarrow> events
      | Some det \<Rightarrow>
          (case maturityDate det of None \<Rightarrow> events
           | Some mat \<Rightarrow>
               (let mDate = startOfDay (parseDate off mat);
                    events1 = (if today \<le> mDate \<and> mDate \<le> endDate
                               then events @ [principalEvent t det mDate] else events)
                in (case periodicInterestAmount det of None \<Rightarrow> events1
                    | Some periodicAmount \<Rightarrow>
                        if periodicAmount \<noteq> 0 \<and> returnPeriod det \<noteq> Maturity then
                          (let monthsToAdd = monthsToAddOf (returnPeriod det)
                           in if 0 < monthsToAdd
                              then eventLoop today endDate mDate t det periodicAmount monthsToAdd 1 0 events1
                              else events1)
                        else events1))))"

definition allEvents :: "int \<Rightarrow> jsDate \<Rightarrow> TimeFilter \<Rightarrow> Transaction list \<Rightarrow> PaymentEvent list" where
  "allEvents off now timeFilter transactions =
     (let today = startOfDay now; endDate = windowEnd today timeFilter
      in foldl (txEvents off today endDate) [] transactions)"

section \<open>Upcoming payments of the dashboard (Dashboard)\<close>

text \<open>
  The kinds of a dashboard payment are 'MATURITY' and 'INTEREST' (here
  \<open>INTEREST_PAYMENT\<close>). Its \<open>id\<close>, built from the millisecond time value, is not
  modelled.
\<close>

datatype PaymentType = MATURITY | INTEREST_PAYMENT

record UpcomingPayment =
  originalTxId :: string
  payType :: PaymentType
  payDate :: jsDate
  payAmount :: real
  payName :: string
  payLabel :: string

text \<open>
  The loop that moves \<open>nextDate\<close> forward to today. It is only reached with
  \<open>monthsToAdd > 0\<close>; the test stands in the loop condition, where it makes the
  recursion total.
\<close>

function fastForward ::
  "jsDate \<Rightarrow> int \<Rightarrow> int \<Rightarrow> int \<Rightarrow> int \<Rightarrow> int \<Rightarrow> jsDate \<Rightarrow> nat \<Rightarrow> jsDate" where
  "fastForward today sY sM sD startDay monthsToAdd nextDate multiplier =
     (if 0 < monthsToAdd \<and> nextDate < today then
        fastForward today sY sM sD startDay monthsToAdd
          (clampTo startDay (newDate sY (sM - 1 + monthsToAdd * int multiplier) sD))
          (multiplier + 1)
      else nextDate)"
  by pat_completeness auto

definition maturityPayment :: "Transaction \<Rightarrow> InvestorDetails \<Rightarrow> jsDate \<Rightarrow> UpcomingPayment" where
  "maturityPayment t det matDate =
     \<lparr> originalTxId = txId t, payType = MATURITY, payDate = matDate, payAmount = amount t,
       payName = investorName det, payLabel = ''Principal Maturity'' \<rparr>"

definition interestPayment ::
  "Transaction \<Rightarrow> InvestorDetails \<Rightarrow> real \<Rightarrow> jsDate \<Rightarrow> UpcomingPayment" where
  "interestPayment t det periodicAmount nextDate =
     \<lparr> originalTxId = txId t, payType = INTEREST_PAYMENT, payDate = nextDate,
       payAmount = periodicAmount, payName = investorName det,
       payLabel = periodName (returnPeriod det) @ '' Interest'' \<rparr>"

definition txPayments :: "jsDate \<Rightarrow> jsDate \<Rightarrow> Transaction \<Rightarrow> UpcomingPayment list" where
  "txPayments today futureLimit t =
     (case investorDetails t of None \<Rightarrow> []
      | Some det \<Rightarrow>
          if txType t \<noteq> INCOME then []
          else
            (case maturityDate det of None \<Rightarrow> []
             | Some (mY, mM, mD) \<Rightarrow>
                 (let matDate = startOfDay (newDate mY (mM - 1) mD);
                      payments1 = (if today \<le> matDate \<and> matDate \<le> futureLimit
                                   then [maturityPayment t det matDate] else [])
                  in (case periodicInterestAmount det of None \<Rightarrow> payments1
                      | Some periodicAmount \<Rightarrow>
                          if periodicAmount \<noteq> 0 \<and> returnPeriod det \<noteq> Maturity then
                            (let monthsToAdd = monthsToAddOf (returnPeriod det)
                             in if 0 < monthsToAdd then
                                  (case date t of (sY, sM, sD) \<Rightarrow>
                                     (let startDate = newDate sY (sM - 1) sD;
                                          startDay = getDate startDate;
                                          nextDate = fastForward today sY sM sD startDay monthsToAdd
                                                       startDate 1
                                      in if nextDate \<le> futureLimit \<and> nextDate \<le> matDate
                                         then payments1 @ [interestPayment t det periodicAmount nextDate]
                                         else payments1))
                                else payments1)
                          else payments1))))"

fun insertAsc :: "UpcomingPayment \<Rightarrow> UpcomingPayment list \<Rightarrow> UpcomingPayment list" where
  "insertAsc a [] = [a]"
| "insertAsc a (b # bs) = (if payDate b < payDate a then b # insertAsc a bs else a # b # bs)"

definition upcomingPayments :: "jsDate \<Rightarrow> Transaction list \<Rightarrow> UpcomingPayment list" where
  "upcomingPayments now transactions =
     (let today = startOfDay now;
          futureLimit = setDate now (getDate today + 30)
      in foldr insertAsc (concat (map (txPayments today futureLimit) transactions)) [])"

section \<open>Investor accounts (InvestorDashboard)\<close>

text \<open>
  A string of the model is a JavaScript string whose code units are all below 256, a
  \<open>char\<close> being one unit. On these \<open>toLowerCase\<close> maps the letters A to Z and
  the capital letters from U+00C0 to U+00DE, the multiplication sign U+00D7 left out, to
  the letter 32 places on, which sets bit 5 of the unit; every other unit is kept.
\<close>

definition lowerChar :: "char \<Rightarrow> char" where
  "lowerChar c =
     (let n = of_char c :: nat
      in if (65 \<le> n \<and> n \<le> 90) \<or> (192 \<le> n \<and> n \<le> 222 \<and> n \<noteq> 215)
         then (case c of Char b0 b1 b2 b3 b4 b5 b6 b7 \<Rightarrow> Char b0 b1 b2 b3 b4 True b6 b7)
         else c)"

definition toLowerCase :: "string \<Rightarrow> string" where
  "toLowerCase s = map lowerChar s"

text \<open>
  \<open>accounts\<close> is a plain JavaScript object used as a dictionary: here the association
  list of its own properties, in the order of their creation. A key that is no own
  property is looked up in \<open>Object.prototype\<close>. Of the names of its members only
  'constructor' and '__proto__' are in lower case, so only these two can be met by a
  lower-cased key: \<open>accounts[key]\<close> is then a function or an object, no account is
  created, and the push to its \<open>transactions\<close>, which is undefined, throws a
  TypeError (for 'constructor' and an income entry, the assignment to \<open>name\<close> before it
  does).
\<close>

datatype error = TypeError

definition inheritedKeys :: "string list" where
  "inheritedKeys = [''constructor'', ''__proto__'']"

record InvestorAccount =
  accName :: string
  totalPrincipal :: real
  totalInterestAccrued :: real
  totalPaid :: real
  accTransactions :: "VirtualTransaction list"

definition realTransaction :: "Transaction \<Rightarrow> VirtualTransaction" where
  "realTransaction t =
     \<lparr> txId = txId t, userId = userId t, amount = amount t, txType = txType t,
       category = category t, paymentMode = paymentMode t, date = date t, txNote = txNote t,
       timestamp = timestamp t, investorDetails = investorDetails t,
       linkedTransactionId = linkedTransactionId t, isVirtual = False,
       relatedTransactionId = None \<rparr>"

definition hasInvestorName :: "Transaction \<Rightarrow> bool" where
  "hasInvestorName t =
     (txType t = INCOME \<and> (case investorDetails t of None \<Rightarrow> False | Some det \<Rightarrow> investorName det \<noteq> []))"

definition investorNameOf :: "Transaction \<Rightarrow> string" where
  "investorNameOf t =
     (if hasInvestorName t then (case investorDetails t of None \<Rightarrow> [] | Some det \<Rightarrow> investorName det)
      else if txType t = EXPENSE then category t else [])"

definition accountStep ::
  "int \<Rightarrow> jsDate \<Rightarrow> (string \<times> InvestorAccount) list \<Rightarrow> Transaction
   \<Rightarrow> error + (string \<times> InvestorAccount) list" where
  "accountStep off now accounts t =
     (let name = investorNameOf t
      in if name = [] then Inr accounts
         else
           (let key = toLowerCase name
            in if map_of accounts key = None \<and> key \<in> set inheritedKeys then Inl TypeError
               else
                 (let acc0 = (case map_of accounts key of
                                None \<Rightarrow> \<lparr> accName = name, totalPrincipal = 0,
                                          totalInterestAccrued = 0, totalPaid = 0,
                                          accTransactions = [] \<rparr>
                              | Some acc \<Rightarrow>
                                  if hasInvestorName t then acc \<lparr> accName := name \<rparr> else acc);
                      acc1 = acc0 \<lparr> accTransactions := accTransactions acc0 @ [realTransaction t] \<rparr>;
                      acc2 = (if txType t = INCOME \<and> investorDetails t \<noteq> None then
                                (let interestEntries = generateInterestEntries off now t
                                 in acc1 \<lparr> totalPrincipal := totalPrincipal acc1 + amount t,
                                          accTransactions := accTransactions acc1 @ interestEntries,
                                          totalInterestAccrued :=
                                            foldl (\<lambda>s intTx. s + amount intTx)
                                              (totalInterestAccrued acc1) interestEntries \<rparr>)
                              else if txType t = EXPENSE
                              then acc1 \<lparr> totalPaid := totalPaid acc1 + amount t \<rparr>
                              else acc1)
                  in Inr (AList.update key acc2 accounts))))"

text \<open>\<open>transactions.forEach\<close>: an exception ends the loop.\<close>

fun forEachTx ::
  "int \<Rightarrow> jsDate \<Rightarrow> (string \<times> InvestorAccount) list \<Rightarrow> Transaction list
   \<Rightarrow> error + (string \<times> InvestorAccount) list" where
  "forEachTx off now accounts [] = Inr accounts"
| "forEachTx off now accounts (t # ts) =
     (case accountStep off now accounts t of
        Inl e \<Rightarrow> Inl e
      | Inr accounts' \<Rightarrow> forEachTx off now accounts' ts)"

text \<open>
  \<open>Object.values\<close> lists the own properties whose key is an array index, the decimal
  numeral of a number below 2^32 - 1 with no leading zero, in ascending order of the
  number, and after them the other properties in the order of their creation.
\<close>

definition digitValue :: "char \<Rightarrow> nat option" where
  "digitValue c = map_of (zip ''0123456789'' [0, 1, 2, 3, 4, 5, 6, 7, 8, 9]) c"

fun indexValue :: "nat \<Rightarrow> string \<Rightarrow> nat option" where
  "indexValue n [] = Some n"
| "indexValue n (c # cs) =
     (case digitValue c of None \<Rightarrow> None | Some d \<Rightarrow> indexValue (10 * n + d) cs)"

definition arrayIndex :: "string \<Rightarrow> nat option" where
  "arrayIndex k =
     (if k = [] \<or> (hd k = CHR ''0'' \<and> k \<noteq> ''0'') then None
      else (case indexValue 0 k of
              None \<Rightarrow> None
            | Some n \<Rightarrow> if n < 4294967295 then Some n else None))"

definition objectValues :: "(string \<times> 'a) list \<Rightarrow> 'a list" where
  "objectValues props =
     map snd (sort_key (\<lambda>p. the (arrayIndex (fst p))) (filter (\<lambda>p. arrayIndex (fst p) \<noteq> None) props))
     @ map snd (filter (\<lambda>p. arrayIndex (fst p) = None) props)"

definition investorAccounts :: "int \<Rightarrow> jsDate \<Rightarrow> Transaction list \<Rightarrow> error + InvestorAccount list" where
  "investorAccounts off now transactions =
     (case forEachTx off now [] transactions of
        Inl e \<Rightarrow> Inl e
      | Inr accounts \<Rightarrow>
          Inr (filter (\<lambda>acc. 0 < totalPrincipal acc \<or> 0 < totalPaid acc) (objectValues accounts)))"

definition netBalance :: "InvestorAccount \<Rightarrow> real" where
  "netBalance acc = (totalPrincipal acc + totalInterestAccrued acc) - totalPaid acc"

section \<open>Storage (storageService, constants)\<close>

definition DEFAULT_CATEGORIES :: "GroupedCategory list" where
  "DEFAULT_CATEGORIES =
     [\<lparr> group = ''Real Estate Projects'',
         items = [''Galaxy'', ''Tatva Developer'', ''Kalpchandra Serenity'', ''Bougainvilla'',
                  ''Varaj Vihar''] \<rparr>,
      \<lparr> group = ''Investor Payments'',
         items = [''Investor Funds'', ''Interest Payment'', ''Principal Return''] \<rparr>,
      \<lparr> group = ''Investments'',
         items = [''SIP (Regular)'', ''SIP (Gold)'', ''Mutual Funds'', ''Stocks''] \<rparr>,
      \<lparr> group = ''Personal'',
         items = [''Salary'', ''Business Profit'', ''Rental Income'', ''Interest'', ''Mediclaim'',
                  ''Term Plan'', ''LIC'', ''Home Loan'', ''Personal Loan'', ''Friends/Family Loan'',
                  ''Utilities'', ''Property Tax'', ''Vehicle'', ''Travel'', ''School Fees'',
                  ''Family Welfare'', ''Groceries'', ''Entertainment'', ''Other''] \<rparr>]"

text \<open>
  The state the storage service works on: under each of the keys \<open>wt_users\<close>,
  \<open>wt_transactions\<close> and \<open>wt_categories\<close> of localStorage, nothing (\<open>None\<close>; an
  empty text counts as nothing) or the value whose JSON text is stored; a text that
  \<open>JSON.parse\<close> rejects is outside the model. \<open>defaultCategories\<close> is the array
  \<open>DEFAULT_CATEGORIES\<close> as it stands in memory: \<open>getCategories\<close> hands out this very
  array when the key is absent, and a caller that pushes to it changes it.
\<close>

record Store =
  stUsers :: "User list option"
  stTransactions :: "Transaction list option"
  stCategories :: "GroupedCategory list option"
  defaultCategories :: "GroupedCategory list"

definition getUsers :: "Store \<Rightarrow> User list" where
  "getUsers st = (case stUsers st of None \<Rightarrow> [] | Some users \<Rightarrow> users)"

text \<open>The stable sort by descending time stamp, as insertion from the right.\<close>

fun insertDesc :: "Transaction \<Rightarrow> Transaction list \<Rightarrow> Transaction list" where
  "insertDesc a [] = [a]"
| "insertDesc a (b # bs) = (if timestamp a < timestamp b then b # insertDesc a bs else a # b # bs)"

definition getTransactions :: "Store \<Rightarrow> string \<Rightarrow> Transaction list" where
  "getTransactions st uid =
     (let parsed = (case stTransactions st of None \<Rightarrow> [] | Some allTx \<Rightarrow> allTx)
      in foldr insertDesc (filter (\<lambda>t. userId t = uid) parsed) [])"

fun findIndex :: "('a \<Rightarrow> bool) \<Rightarrow> 'a list \<Rightarrow> nat option" where
  "findIndex P [] = None"
| "findIndex P (x # xs) = (if P x then Some 0 else map_option Suc (findIndex P xs))"

text \<open>
  A group found by \<open>find\<close> is an object of the array, and changing its items changes the
  array: \<open>updateGroup g f\<close> applies \<open>f\<close> to the items of the first group named \<open>g\<close>.
\<close>

fun updateGroup :: "string \<Rightarrow> (string list \<Rightarrow> string list) \<Rightarrow> GroupedCategory list \<Rightarrow> GroupedCategory list" where
  "updateGroup g f [] = []"
| "updateGroup g f (c # cs) =
     (if group c = g then c \<lparr> items := f (items c) \<rparr> # cs else c # updateGroup g f cs)"

definition unshiftMissing :: "string \<Rightarrow> string list \<Rightarrow> string list" where
  "unshiftMissing item its = (if item \<in> set its then its else item # its)"

definition migration1 :: "GroupedCategory list \<Rightarrow> GroupedCategory list \<times> bool" where
  "migration1 categories =
     (case find (\<lambda>c. group c = ''Personal'') categories of
        None \<Rightarrow> (categories, False)
      | Some personalGroup \<Rightarrow>
          (case find (\<lambda>c. group c = ''Investor Payments'') categories of
             None \<Rightarrow> (categories, False)
           | Some investorGroup \<Rightarrow>
               if ''Investor Funds'' \<in> set (items personalGroup) then
                 (updateGroup ''Investor Payments'' (unshiftMissing ''Investor Funds'')
                    (updateGroup ''Personal'' (remove1 ''Investor Funds'') categories), True)
               else (categories, False)))"

definition ensureInvestments :: "GroupedCategory list \<Rightarrow> GroupedCategory list \<times> bool" where
  "ensureInvestments categories =
     (case find (\<lambda>c. group c = ''Investments'') categories of
        Some investmentsGroup \<Rightarrow> (categories, False)
      | None \<Rightarrow>
          (let investmentsGroup = \<lparr> group = ''Investments'', items = [''Mutual Funds'', ''Stocks''] \<rparr>
           in case findIndex (\<lambda>c. group c = ''Personal'') categories of
                Some pIndex \<Rightarrow> (take pIndex categories @ investmentsGroup # drop pIndex categories, True)
              | None \<Rightarrow> (categories @ [investmentsGroup], True)))"

definition moveItem :: "string \<Rightarrow> GroupedCategory list \<times> bool \<Rightarrow> GroupedCategory list \<times> bool" where
  "moveItem item = (\<lambda>(categories, changed).
     case find (\<lambda>c. group c = ''Personal'') categories of
       None \<Rightarrow> (categories, changed)
     | Some personalGroup \<Rightarrow>
         if item \<in> set (items personalGroup) then
           (updateGroup ''Investments'' (unshiftMissing item)
              (updateGroup ''Personal'' (remove1 item) categories), True)
         else (categories, changed))"

definition migrate :: "GroupedCategory list \<Rightarrow> GroupedCategory list \<times> bool" where
  "migrate stored =
     (case migration1 stored of (c1, changed1) \<Rightarrow>
        (case ensureInvestments c1 of (c2, changed2) \<Rightarrow>
           moveItem ''SIP (Gold)'' (moveItem ''SIP (Regular)'' (c2, changed1 \<or> changed2))))"

definition getCategories :: "Store \<Rightarrow> GroupedCategory list \<times> Store" where
  "getCategories st =
     (case stCategories st of
        Some stored \<Rightarrow>
          (case migrate stored of (categories, changed) \<Rightarrow>
             (categories, if changed then st \<lparr> stCategories := Some categories \<rparr> else st))
      | None \<Rightarrow> (defaultCategories st, st \<lparr> stCategories := Some (defaultCategories st) \<rparr>))"

definition saveCategories :: "GroupedCategory list \<Rightarrow> Store \<Rightarrow> Store" where
  "saveCategories categories st = st \<lparr> stCategories := Some categories \<rparr>"

definition resetCategories :: "Store \<Rightarrow> GroupedCategory list \<times> Store" where
  "resetCategories st = (defaultCategories st, st \<lparr> stCategories := Some (defaultCategories st) \<rparr>)"

text \<open>
  \<open>ensureInvestorCategory\<close>. When the key was absent, \<open>categories\<close> is the array
  \<open>DEFAULT_CATEGORIES\<close> itself, so what is pushed to it, the group or the name, is pushed
  to the defaults in memory as well.
\<close>

definition ensureInvestorCategory :: "string \<Rightarrow> Store \<Rightarrow> Store" where
  "ensureInvestorCategory name st =
     (case getCategories st of (categories, st1) \<Rightarrow>
        (let shared = (stCategories st = None);
             (categories1, groupIndex) =
               (case findIndex (\<lambda>c. group c = ''Investor Payments'') categories of
                  None \<Rightarrow> (categories @ [\<lparr> group = ''Investor Payments'', items = [] \<rparr>],
                            length categories)
                | Some i \<Rightarrow> (categories, i));
             exists = list_ex (\<lambda>item. toLowerCase item = toLowerCase name)
                        (items (categories1 ! groupIndex))
         in if \<not> exists then
              (let categories2 = categories1 [groupIndex :=
                     (categories1 ! groupIndex)
                       \<lparr> items := items (categories1 ! groupIndex) @ [name] \<rparr>]
               in saveCategories categories2
                    (if shared then st1 \<lparr> defaultCategories := categories2 \<rparr> else st1))
            else (if shared then st1 \<lparr> defaultCategories := categories1 \<rparr> else st1)))"

chapter \<open>The wording of the specification\<close>

section \<open>Calendar months\<close>

text \<open>
  The wording of the specification, for comparison: the start date plus \<open>n\<close> calendar
  months, the day of month clamped to the last day of the target month.
\<close>

definition specAddMonths :: "ymd \<Rightarrow> int \<Rightarrow> ymd" where
  "specAddMonths = (\<lambda>(y, m, d) n.
     let idx = 12 * y + (m - 1) + n; y' = idx div 12; m' = idx mod 12 + 1
     in (y', m', min d (daysInMonth y' m')))"

section \<open>Periods per year\<close>

text \<open>12, 4, 2 and 1 for Monthly, Quarterly, Half-Yearly and Yearly.\<close>

definition specPeriodsPerYear :: "ReturnPeriod \<Rightarrow> real" where
  "specPeriodsPerYear rp = (case rp of Monthly \<Rightarrow> 12 | Quarterly \<Rightarrow> 4 | HalfYearly \<Rightarrow> 2 | Yearly \<Rightarrow> 1 | Maturity \<Rightarrow> 1)"

section \<open>Projected interest events\<close>

text \<open>
  The wording of the specification, for comparison. A period is 1, 3, 6 or 12 months.
  Starting from the start date, N periods are added for N = 1, 2, and so on, and the
  projection stops once the projected date exceeds the maturity date; the amount of an
  event is the stored periodic amount, or else (principal * rate / 100) divided by the
  periods per year. For the period Maturity there is a single event on the maturity date,
  of the stored amount or else principal * rate / 100 * (durationMonths / 12). The events
  due up to a day are those dated on or before it.
\<close>

definition specMonthsPerPeriod :: "ReturnPeriod \<Rightarrow> int" where
  "specMonthsPerPeriod rp =
     (case rp of Monthly \<Rightarrow> 1 | Quarterly \<Rightarrow> 3 | HalfYearly \<Rightarrow> 6 | Yearly \<Rightarrow> 12 | Maturity \<Rightarrow> 0)"

function specDueDates :: "ymd \<Rightarrow> int \<Rightarrow> ymd \<Rightarrow> nat \<Rightarrow> ymd list" where
  "specDueDates start k mat N =
     (if k \<le> 0 \<or> mat < specAddMonths start (k * int N) then []
      else specAddMonths start (k * int N) # specDueDates start k mat (Suc N))"
  by pat_completeness auto

definition specInterestEvents :: "ymd \<Rightarrow> Transaction \<Rightarrow> (ymd \<times> real) list" where
  "specInterestEvents asOf t =
     (case investorDetails t of None \<Rightarrow> []
      | Some det \<Rightarrow>
          (case maturityDate det of None \<Rightarrow> []
           | Some mat \<Rightarrow>
               if returnPeriod det = Maturity then
                 (if mat \<le> asOf
                  then [(mat, case periodicInterestAmount det of
                                Some a \<Rightarrow> a
                              | None \<Rightarrow> amount t * roi det / 100
                                          * (real_of_int (durationMonths det) / 12))]
                  else [])
               else
                 map (\<lambda>d. (d, case periodicInterestAmount det of
                                Some a \<Rightarrow> a
                              | None \<Rightarrow> (amount t * roi det / 100)
                                          / specPeriodsPerYear (returnPeriod det)))
                   (filter (\<lambda>d. d \<le> asOf)
                      (specDueDates (date t) (specMonthsPerPeriod (returnPeriod det)) mat 1))))"

section \<open>Sums per investor\<close>

text \<open>
  The wording of the specification, for comparison. The key of a transaction is the
  lower-cased investor name of an income entry and the lower-cased category of an expense
  entry (none when that text is empty). Per key: the principal summed over the income
  transactions that carry investor details, the interest summed over their projected due
  events up to today, the payments summed over the expense transactions, and the balance.
\<close>

definition keyOf :: "Transaction \<Rightarrow> string option" where
  "keyOf t =
     (case txType t of
        INCOME \<Rightarrow>
          (case investorDetails t of None \<Rightarrow> None
           | Some det \<Rightarrow> if investorName det = [] then None else Some (toLowerCase (investorName det)))
      | EXPENSE \<Rightarrow> if category t = [] then None else Some (toLowerCase (category t)))"

definition incomeOf :: "string \<Rightarrow> Transaction \<Rightarrow> bool" where
  "incomeOf k t = (txType t = INCOME \<and> investorDetails t \<noteq> None \<and> keyOf t = Some k)"

definition expenseOf :: "string \<Rightarrow> Transaction \<Rightarrow> bool" where
  "expenseOf k t = (txType t = EXPENSE \<and> keyOf t = Some k)"

definition ledgerPrincipal :: "string \<Rightarrow> Transaction list \<Rightarrow> real" where
  "ledgerPrincipal k txs = sum_list (map amount (filter (incomeOf k) txs))"

definition ledgerInterest :: "ymd \<Rightarrow> string \<Rightarrow> Transaction list \<Rightarrow> real" where
  "ledgerInterest today k txs =
     sum_list (map (\<lambda>t. sum_list (map snd (specInterestEvents today t))) (filter (incomeOf k) txs))"

definition ledgerPaid :: "string \<Rightarrow> Transaction list \<Rightarrow> real" where
  "ledgerPaid k txs = sum_list (map amount (filter (expenseOf k) txs))"

definition ledgerBalance :: "ymd \<Rightarrow> string \<Rightarrow> Transaction list \<Rightarrow> real" where
  "ledgerBalance today k txs = ledgerPrincipal k txs + ledgerInterest today k txs - ledgerPaid k txs"

chapter \<open>Auxiliary notions and example inputs\<close>

section \<open>Month index of a day\<close>

definition monthIndex :: "ymd \<Rightarrow> int" where
  "monthIndex = (\<lambda>(y, m, d). 12 * y + m - 1)"

definition okMonth :: "ymd \<Rightarrow> bool" where
  "okMonth = (\<lambda>(y, m, d). 1 \<le> m \<and> m \<le> 12)"

section \<open>The measure of the dashboard's loop\<close>

definition fastForwardMeasure ::
  "jsDate \<times> int \<times> int \<times> int \<times> int \<times> int \<times> jsDate \<times> nat \<Rightarrow> nat" where
  "fastForwardMeasure = (\<lambda>(today, sY, sM, sD, startDay, monthsToAdd, nextDate, multiplier).
     if 0 < monthsToAdd \<and> nextDate < today
     then 1 + nat (12 * fst (fst today) + 13 + max 0 (1 - sD)
                   - (12 * sY + (sM - 1 + monthsToAdd * int multiplier)))
     else 0)"

section \<open>Entries and accounts\<close>

text \<open>What the entry of the \<open>n\<close>-th period holds.\<close>

definition entryAt :: "int \<Rightarrow> Transaction \<Rightarrow> real \<Rightarrow> int \<Rightarrow> nat \<Rightarrow> VirtualTransaction \<Rightarrow> bool" where
  "entryAt off t a mta n e = (case date t of (sY, sM, sD) \<Rightarrow>
     timestamp e = periodDate sY sM sD mta (int n) \<and>
     date e = toISODate off (periodDate sY sM sD mta (int n)) \<and> amount e = a)"

text \<open>
  The amounts of the entries that the ledger generates for the income transactions of a
  key.
\<close>

definition generatedInterest :: "int \<Rightarrow> jsDate \<Rightarrow> string \<Rightarrow> Transaction list \<Rightarrow> real" where
  "generatedInterest off now k txs =
     sum_list (map (\<lambda>t. sum_list (map amount (generateInterestEntries off now t)))
       (filter (incomeOf k) txs))"

text \<open>What an account holds for its key after the transactions \<open>txs\<close>.\<close>

definition goodAccount :: "int \<Rightarrow> jsDate \<Rightarrow> string \<Rightarrow> Transaction list \<Rightarrow> InvestorAccount \<Rightarrow> bool" where
  "goodAccount off now k txs acc =
     (toLowerCase (accName acc) = k \<and>
      totalPrincipal acc = ledgerPrincipal k txs \<and>
      totalInterestAccrued acc = generatedInterest off now k txs \<and>
      totalPaid acc = ledgerPaid k txs \<and>
      (filter (incomeOf k) txs = [] \<or> accName acc = investorNameOf (last (filter (incomeOf k) txs))))"

definition applyTx :: "int \<Rightarrow> jsDate \<Rightarrow> Transaction \<Rightarrow> InvestorAccount option \<Rightarrow> InvestorAccount" where
  "applyTx off now t found =
     (let name = investorNameOf t;
          acc0 = (case found of
                    None \<Rightarrow> \<lparr> accName = name, totalPrincipal = 0, totalInterestAccrued = 0,
                              totalPaid = 0, accTransactions = [] \<rparr>
                  | Some acc \<Rightarrow> if hasInvestorName t then acc \<lparr> accName := name \<rparr> else acc);
          acc1 = acc0 \<lparr> accTransactions := accTransactions acc0 @ [realTransaction t] \<rparr>
      in if txType t = INCOME \<and> investorDetails t \<noteq> None then
           (let interestEntries = generateInterestEntries off now t
            in acc1 \<lparr> totalPrincipal := totalPrincipal acc1 + amount t,
                     accTransactions := accTransactions acc1 @ interestEntries,
                     totalInterestAccrued :=
                       foldl (\<lambda>s intTx. s + amount intTx) (totalInterestAccrued acc1) interestEntries \<rparr>)
         else if txType t = EXPENSE then acc1 \<lparr> totalPaid := totalPaid acc1 + amount t \<rparr>
         else acc1)"

text \<open>The step of the loop for a key that is not met in \<open>Object.prototype\<close>.\<close>

definition stepOk ::
  "int \<Rightarrow> jsDate \<Rightarrow> (string \<times> InvestorAccount) list \<Rightarrow> Transaction \<Rightarrow> (string \<times> InvestorAccount) list" where
  "stepOk off now accounts t =
     (case keyOf t of None \<Rightarrow> accounts
      | Some key \<Rightarrow> AList.update key (applyTx off now t (map_of accounts key)) accounts)"

definition inheritedKey :: "Transaction \<Rightarrow> bool" where
  "inheritedKey t = (case keyOf t of None \<Rightarrow> False | Some key \<Rightarrow> key \<in> set inheritedKeys)"

definition accountSums :: "InvestorAccount \<Rightarrow> string \<times> real \<times> real \<times> real \<times> real" where
  "accountSums acc =
     (accName acc, totalPrincipal acc, totalInterestAccrued acc, totalPaid acc, netBalance acc)"

definition ledgerInv :: "int \<Rightarrow> jsDate \<Rightarrow> (string \<times> InvestorAccount) list \<Rightarrow> Transaction list \<Rightarrow> bool" where
  "ledgerInv off now al txs =
     (distinct (map fst al) \<and>
      (\<forall>k. case map_of al k of
              None \<Rightarrow> (\<forall>t \<in> set txs. keyOf t \<noteq> Some k)
            | Some acc \<Rightarrow> goodAccount off now k txs acc))"

section \<open>Pending migrations\<close>

text \<open>Which steps of the migration are pending.\<close>

definition pending1 :: "GroupedCategory list \<Rightarrow> bool" where
  "pending1 cs =
     (case find (\<lambda>c. group c = ''Personal'') cs of
        None \<Rightarrow> False
      | Some p \<Rightarrow> find (\<lambda>c. group c = ''Investor Payments'') cs \<noteq> None \<and>
                  ''Investor Funds'' \<in> set (items p))"

definition pending2 :: "GroupedCategory list \<Rightarrow> bool" where
  "pending2 cs = (find (\<lambda>c. group c = ''Investments'') cs = None)"

definition pending3 :: "string \<Rightarrow> GroupedCategory list \<Rightarrow> bool" where
  "pending3 item cs =
     (case find (\<lambda>c. group c = ''Personal'') cs of None \<Rightarrow> False | Some p \<Rightarrow> item \<in> set (items p))"

definition noMigration :: "GroupedCategory list \<Rightarrow> bool" where
  "noMigration cs =
     (\<not> pending1 cs \<and> \<not> pending2 cs \<and> \<not> pending3 ''SIP (Regular)'' cs \<and> \<not> pending3 ''SIP (Gold)'' cs)"

section \<open>Example inputs\<close>

definition exMonthlyDetails :: InvestorDetails where
  "exMonthlyDetails = \<lparr> investorName = ''Asha'', roi = 12, returnPeriod = Monthly,
       durationMonths = 12, maturityDate = Some (2025, 1, 31), purpose = None,
       periodicInterestAmount = None \<rparr>"

definition exMonthlyTx :: Transaction where
  "exMonthlyTx = \<lparr> txId = ''t1'', userId = ''u1'', amount = 120000, txType = INCOME,
     category = ''Investor Funds'', paymentMode = Some ''UPI'', date = (2024, 1, 31), txNote = None,
     timestamp = ((2024, 1, 31), 36000000), investorDetails = Some exMonthlyDetails,
     linkedTransactionId = None \<rparr>"

definition exQuarterlyDetails :: InvestorDetails where
  "exQuarterlyDetails = \<lparr> investorName = ''Asha'', roi = 12, returnPeriod = Quarterly,
       durationMonths = 2, maturityDate = Some (2024, 3, 15), purpose = None,
       periodicInterestAmount = Some 3600 \<rparr>"

definition exQuarterlyTx :: Transaction where
  "exQuarterlyTx = \<lparr> txId = ''t2'', userId = ''u1'', amount = 120000, txType = INCOME,
     category = ''Investor Funds'', paymentMode = Some ''UPI'', date = (2024, 1, 15), txNote = None,
     timestamp = ((2024, 1, 15), 36000000), investorDetails = Some exQuarterlyDetails,
     linkedTransactionId = None \<rparr>"




definition exLongDetails :: InvestorDetails where
  "exLongDetails = \<lparr> investorName = ''Meera'', roi = 12, returnPeriod = Monthly,
       durationMonths = 120, maturityDate = Some (2029, 1, 15), purpose = None,
       periodicInterestAmount = Some 1000 \<rparr>"

definition exLongTx :: Transaction where
  "exLongTx = \<lparr> txId = ''t4'', userId = ''u1'', amount = 100000, txType = INCOME,
     category = ''Investor Funds'', paymentMode = Some ''UPI'', date = (2019, 1, 15), txNote = None,
     timestamp = ((2019, 1, 15), 36000000), investorDetails = Some exLongDetails,
     linkedTransactionId = None \<rparr>"

definition exPaymentTx :: Transaction where
  "exPaymentTx = \<lparr> txId = ''t5'', userId = ''u1'', amount = 1200, txType = EXPENSE,
     category = ''asha'', paymentMode = Some ''UPI'', date = (2024, 3, 1), txNote = None,
     timestamp = ((2024, 3, 1), 36000000), investorDetails = None,
     linkedTransactionId = None \<rparr>"

definition exConstructorTx :: Transaction where
  "exConstructorTx = \<lparr> txId = ''t6'', userId = ''u1'', amount = 500, txType = EXPENSE,
     category = ''Constructor'', paymentMode = Some ''Cash'', date = (2024, 3, 1), txNote = None,
     timestamp = ((2024, 3, 1), 36000000), investorDetails = None,
     linkedTransactionId = None \<rparr>"

definition emptyStore :: Store where
  "emptyStore = \<lparr> stUsers = None, stTransactions = None, stCategories = None,
                  defaultCategories = DEFAULT_CATEGORIES \<rparr>"

definition settledStore :: Store where
  "settledStore = \<lparr> stUsers = None, stTransactions = None, stCategories = Some DEFAULT_CATEGORIES,
                    defaultCategories = DEFAULT_CATEGORIES \<rparr>"

definition legacyStore :: Store where
  "legacyStore = \<lparr> stUsers = None, stTransactions = None,
     stCategories = Some [\<lparr> group = ''Investor Payments'', items = [''bob''] \<rparr>,
                          \<lparr> group = ''Personal'', items = [''Salary''] \<rparr>],
     defaultCategories = DEFAULT_CATEGORIES \<rparr>"

definition oldStore :: Store where
  "oldStore = \<lparr> stUsers = None, stTransactions = None,
     stCategories = Some [\<lparr> group = ''Investments'', items = [''Stocks''] \<rparr>,
                          \<lparr> group = ''Personal'', items = [''Investor Funds''] \<rparr>],
     defaultCategories = DEFAULT_CATEGORIES \<rparr>"

chapter \<open>Facts\<close>

section \<open>Facts about the calendar\<close>

lemma daysInMonth_bounds: "28 \<le> daysInMonth y m \<and> daysInMonth y m \<le> 31"
  by (simp add: daysInMonth_def)

lemma nextDay_index: "okMonth dt \<Longrightarrow> okMonth (nextDay dt) \<and> monthIndex dt \<le> monthIndex (nextDay dt)"
  by (cases dt) (auto simp: okMonth_def nextDay_def monthIndex_def)

lemma prevDay_index: "okMonth dt \<Longrightarrow> okMonth (prevDay dt) \<and> monthIndex dt - 1 \<le> monthIndex (prevDay dt)"
  by (cases dt) (auto simp: okMonth_def prevDay_def monthIndex_def)

lemma nextDay_pow_index:
  "okMonth dt \<Longrightarrow> okMonth ((nextDay ^^ n) dt) \<and> monthIndex dt \<le> monthIndex ((nextDay ^^ n) dt)"
proof (induction n)
  case 0
  then show ?case by simp
next
  case (Suc n)
  then show ?case using nextDay_index [of "(nextDay ^^ n) dt"] by auto
qed

lemma prevDay_pow_index:
  "okMonth dt \<Longrightarrow> okMonth ((prevDay ^^ n) dt) \<and> monthIndex dt - int n \<le> monthIndex ((prevDay ^^ n) dt)"
proof (induction n)
  case 0
  then show ?case by simp
next
  case (Suc n)
  then show ?case using prevDay_index [of "(prevDay ^^ n) dt"] by auto
qed

lemma addDays_index:
  assumes "okMonth dt"
  shows "okMonth (addDays n dt) \<and> monthIndex dt - max 0 (- n) \<le> monthIndex (addDays n dt)"
proof (cases "0 \<le> n")
  case True
  then show ?thesis using nextDay_pow_index [OF assms, of "nat n"] by (simp add: addDays_def)
next
  case False
  then show ?thesis using prevDay_pow_index [OF assms, of "nat (- n)"] by (simp add: addDays_def)
qed

lemma MakeDay_index:
  "okMonth (MakeDay y mo dt) \<and> 12 * y + mo - max 0 (1 - dt) \<le> monthIndex (MakeDay y mo dt)"
proof -
  have ok: "okMonth (y + mo div 12, mo mod 12 + 1, 1)"
    by (simp add: okMonth_def)
  have idx: "monthIndex (y + mo div 12, mo mod 12 + 1, 1) = 12 * y + mo"
    by (simp add: monthIndex_def algebra_simps)
  show ?thesis
    using addDays_index [OF ok, of "dt - 1"] by (simp add: MakeDay_def idx)
qed

section \<open>Bounds on the projected date\<close>

lemma newDate_index:
  "okMonth (fst (newDate y mo dt)) \<and> 12 * y + mo - max 0 (1 - dt) \<le> monthIndex (fst (newDate y mo dt))"
proof (cases "0 \<le> y \<and> y \<le> 99")
  case True
  then show ?thesis using MakeDay_index [of "1900 + y" mo dt] by (simp add: newDate_def)
next
  case False
  then have "newDate y mo dt = (MakeDay y mo dt, 0)" by (auto simp: newDate_def)
  then show ?thesis using MakeDay_index [of y mo dt] by simp
qed

lemma setDate_index:
  assumes "okMonth (fst dt)"
  shows "okMonth (fst (setDate dt k)) \<and> monthIndex (fst dt) - max 0 (1 - k) \<le> monthIndex (fst (setDate dt k))"
proof -
  obtain y m d ms where dt: "dt = ((y, m, d), ms)" by (cases dt) auto
  show ?thesis
    using MakeDay_index [of y "m - 1" k]
    by (simp add: dt setDate_def getFullYear_def getMonth_def monthIndex_def)
qed

lemma periodDate_index:
  "okMonth (fst (periodDate sY sM sD mta k)) \<and>
   12 * sY + (sM - 1 + mta * k) - max 0 (1 - sD) - 1 \<le> monthIndex (fst (periodDate sY sM sD mta k))"
proof -
  let ?n = "newDate sY (sM - 1 + mta * k) sD"
  have n: "okMonth (fst ?n) \<and> 12 * sY + (sM - 1 + mta * k) - max 0 (1 - sD) \<le> monthIndex (fst ?n)"
    by (rule newDate_index)
  have s: "okMonth (fst (setDate ?n 0)) \<and> monthIndex (fst ?n) - 1 \<le> monthIndex (fst (setDate ?n 0))"
    using setDate_index [of ?n 0] n by simp
  show ?thesis
    using n s by (auto simp: periodDate_def Let_def)
qed

lemma periodDate_bound:
  assumes "periodDate sY sM sD mta k \<le> today"
  shows "12 * sY + (sM - 1 + mta * k) - max 0 (1 - sD) \<le> 12 * fst (fst today) + 12"
proof -
  obtain y m d ms where c: "periodDate sY sM sD mta k = ((y, m, d), ms)"
    by (cases "periodDate sY sM sD mta k") auto
  obtain ty tm td tms where t: "today = ((ty, tm, td), tms)" by (cases today) auto
  have "y \<le> ty" using assms by (auto simp: c t)
  moreover have "m \<le> 12 \<and> 12 * sY + (sM - 1 + mta * k) - max 0 (1 - sD) - 1 \<le> 12 * y + m - 1"
    using periodDate_index [of sY sM sD mta k] by (simp add: c okMonth_def monthIndex_def)
  ultimately show ?thesis by (simp add: t)
qed

termination interestLoop
proof (relation "measure (\<lambda>(off, today, t, det, interestAmount, monthsToAdd, multiplier, count, entries).
    nat (12 * fst (fst today) + 13 + max 0 (1 - snd (snd (date t)))
         - (12 * fst (date t) + (fst (snd (date t)) - 1 + monthsToAdd * int multiplier))))")
  show "wf (measure (\<lambda>(off, today, t, det, interestAmount, monthsToAdd, multiplier, count, entries).
    nat (12 * fst (fst today) + 13 + max 0 (1 - snd (snd (date t)))
         - (12 * fst (date t) + (fst (snd (date t)) - 1 + monthsToAdd * int multiplier)))))"
    by simp
next
  fix off :: int and today :: jsDate and t :: Transaction and det :: InvestorDetails
    and interestAmount :: real and monthsToAdd :: int and multiplier count :: nat
    and entries xe :: "VirtualTransaction list" and sY sM sD :: int and y :: "int \<times> int"
    and xd :: nat and xf :: jsDate
  assume d: "(sY, y) = date t" "(sM, sD) = y"
    and g: "0 < monthsToAdd \<and> periodDate sY sM sD monthsToAdd (int multiplier) \<le> today"
    and m: "xd = multiplier + 1"
  have dt: "date t = (sY, sM, sD)" using d by simp
  have "12 * sY + (sM - 1 + monthsToAdd * int multiplier) - max 0 (1 - sD) \<le> 12 * fst (fst today) + 12"
    using g periodDate_bound by blast
  then show "((off, today, t, det, interestAmount, monthsToAdd, xd, count + 1, xe),
              (off, today, t, det, interestAmount, monthsToAdd, multiplier, count, entries))
        \<in> measure (\<lambda>(off, today, t, det, interestAmount, monthsToAdd, multiplier, count, entries).
    nat (12 * fst (fst today) + 13 + max 0 (1 - snd (snd (date t)))
         - (12 * fst (date t) + (fst (snd (date t)) - 1 + monthsToAdd * int multiplier))))"
    using g by (simp add: dt m algebra_simps)
qed

section \<open>The projected date in closed form\<close>

lemma nextDay_pow_within:
  "d + int n \<le> daysInMonth y m \<Longrightarrow> (nextDay ^^ n) (y, m, d) = (y, m, d + int n)"
proof (induction n)
  case 0
  then show ?case by simp
next
  case (Suc n)
  then show ?case by (simp add: nextDay_def)
qed

lemma addDays_within:
  "0 \<le> n \<Longrightarrow> 1 + n \<le> daysInMonth y m \<Longrightarrow> addDays n (y, m, 1) = (y, m, 1 + n)"
  using nextDay_pow_within [of 1 "nat n" y m] by (simp add: addDays_def)

lemma addDays_overflow:
  assumes "daysInMonth y m \<le> n" "n \<le> 30"
  shows "addDays n (y, m, 1) =
           (if m < 12 then (y, m + 1, 1 + n - daysInMonth y m) else (y + 1, 1, 1 + n - daysInMonth y m))"
proof -
  define L where "L = daysInMonth y m"
  define r where "r = nat (n - L)"
  have L: "28 \<le> L" using daysInMonth_bounds [of y m] by (simp add: L_def)
  have n: "nat n = r + Suc (nat (L - 1))" using assms L by (simp add: r_def L_def)
  have r: "int r = n - L" "int r \<le> 2" using assms L by (simp_all add: r_def L_def)
  have a: "(nextDay ^^ nat (L - 1)) (y, m, 1) = (y, m, L)"
    using nextDay_pow_within [of 1 "nat (L - 1)" y m] L by (simp add: L_def)
  have b: "nextDay (y, m, L) = (if m < 12 then (y, m + 1, 1) else (y + 1, 1, 1))"
    by (simp add: nextDay_def L_def)
  have c: "(nextDay ^^ r) (y2, m2, 1) = (y2, m2, 1 + n - L)" for y2 m2
    using nextDay_pow_within [of 1 r y2 m2] daysInMonth_bounds [of y2 m2] r by simp
  have split: "(nextDay ^^ (i + Suc j)) x = (nextDay ^^ i) (nextDay ((nextDay ^^ j) x))" for i j x
    by (simp add: funpow_add funpow_swap1)
  have "(nextDay ^^ nat n) (y, m, 1) = (nextDay ^^ r) (nextDay ((nextDay ^^ nat (L - 1)) (y, m, 1)))"
    by (subst n) (rule split)
  also have "\<dots> = (if m < 12 then (y, m + 1, 1 + n - L) else (y + 1, 1, 1 + n - L))"
    by (simp add: a b c)
  finally show ?thesis using assms L by (simp add: addDays_def L_def)
qed

lemma setDate0_first: "1 \<le> m \<Longrightarrow> m \<le> 12 \<Longrightarrow> setDate ((y, m, d), ms) 0 = (prevDay (y, m, 1), ms)"
  by (simp add: setDate_def getFullYear_def getMonth_def MakeDay_def addDays_def)

lemma periodDate_valid:
  assumes v: "validDate (sY, sM, sD)"
  shows "periodDate sY sM sD mta k = (specAddMonths (sY, sM, sD) (mta * k), 0)"
proof -
  define mo where "mo = sM - 1 + mta * k"
  define y where "y = sY + mo div 12"
  define m where "m = mo mod 12 + 1"
  define L where "L = daysInMonth y m"
  have sY: "100 \<le> sY" and sD: "1 \<le> sD" "sD \<le> 31"
    using v daysInMonth_bounds [of sY sM] by (auto simp: validDate_def)
  have m: "1 \<le> m" "m \<le> 12" by (simp_all add: m_def)
  have L: "28 \<le> L" using daysInMonth_bounds [of y m] by (simp add: L_def)
  have sp: "12 * sY + (sM - 1) + mta * k = mo + sY * 12" by (simp add: mo_def)
  have "(12 * sY + (sM - 1) + mta * k) div 12 = y" "(12 * sY + (sM - 1) + mta * k) mod 12 + 1 = m"
    by (simp_all only: sp div_mult_self1 mod_mult_self1 y_def m_def)
  then have spec: "specAddMonths (sY, sM, sD) (mta * k) = (y, m, min sD L)"
    by (simp add: specAddMonths_def Let_def L_def)
  have nd: "newDate sY mo sD = (addDays (sD - 1) (y, m, 1), 0)"
    using sY by (simp add: newDate_def MakeDay_def y_def m_def)
  have pd: "periodDate sY sM sD mta k =
      (if getDate (newDate sY mo sD) \<noteq> sD then setDate (newDate sY mo sD) 0 else newDate sY mo sD)"
    by (simp add: periodDate_def Let_def mo_def)
  show ?thesis
  proof (cases "sD \<le> L")
    case True
    then have "addDays (sD - 1) (y, m, 1) = (y, m, sD)"
      using addDays_within [of "sD - 1" y m] sD by (simp add: L_def)
    then show ?thesis using True by (simp add: pd nd getDate_def spec)
  next
    case False
    have ov: "addDays (sD - 1) (y, m, 1) =
           (if m < 12 then (y, m + 1, sD - L) else (y + 1, 1, sD - L))"
      using addDays_overflow [of y m "sD - 1"] False sD by (simp add: L_def)
    show ?thesis
    proof (cases "m < 12")
      case True
      then have "periodDate sY sM sD mta k = (prevDay (y, m + 1, 1), 0)"
        using False L sD m setDate0_first [of "m + 1" y "sD - L" 0]
        by (simp add: pd nd ov getDate_def)
      then show ?thesis using True False m by (simp add: prevDay_def spec L_def)
    next
      case m12: False
      then have "periodDate sY sM sD mta k = (prevDay (y + 1, 1, 1), 0)"
        using False L sD setDate0_first [of 1 "y + 1" "sD - L" 0]
        by (simp add: pd nd ov getDate_def)
      moreover have "m = 12" using m12 m by linarith
      moreover have "daysInMonth y 12 = 31" by (simp add: daysInMonth_def)
      ultimately show ?thesis using False by (simp add: prevDay_def spec L_def)
    qed
  qed
qed

section \<open>The ledger's interest entries\<close>

declare interestLoop.simps [simp del]

lemma interestLoop_unfold:
  assumes "date t = (sY, sM, sD)"
  shows "interestLoop off today t det a mta k c es =
     (if 0 < mta \<and> periodDate sY sM sD mta (int k) \<le> today then
        (if (case maturityDate det of None \<Rightarrow> False
             | Some mat \<Rightarrow> parseDate off mat < periodDate sY sM sD mta (int (Suc k)))
         then es @ [interestEntry off t a (returnPeriod det) c (periodDate sY sM sD mta (int k))]
         else interestLoop off today t det a mta (Suc k) (Suc c)
                (es @ [interestEntry off t a (returnPeriod det) c (periodDate sY sM sD mta (int k))]))
      else es)"
  by (subst interestLoop.simps) (simp add: assms Let_def)

lemma interestLoop_entries:
  "k = Suc (length es) \<Longrightarrow> (\<And>i. i < length es \<Longrightarrow> entryAt off t a mta (Suc i) (es ! i)) \<Longrightarrow>
   i < length (interestLoop off today t det a mta k c es) \<Longrightarrow>
   entryAt off t a mta (Suc i) (interestLoop off today t det a mta k c es ! i)"
proof (induction off today t det a mta k c es rule: interestLoop.induct)
  case (1 off today t det a mta k c es)
  obtain sY sM sD where d: "date t = (sY, sM, sD)" by (cases "date t") auto
  define e where "e = interestEntry off t a (returnPeriod det) c (periodDate sY sM sD mta (int k))"
  define brk where "brk = (case maturityDate det of None \<Rightarrow> False
             | Some mat \<Rightarrow> parseDate off mat < periodDate sY sM sD mta (int (Suc k)))"
  define g where "g = (0 < mta \<and> periodDate sY sM sD mta (int k) \<le> today)"
  have unf: "interestLoop off today t det a mta k c es =
     (if g then (if brk then es @ [e] else interestLoop off today t det a mta (Suc k) (Suc c) (es @ [e])) else es)"
    unfolding e_def brk_def g_def by (rule interestLoop_unfold [OF d])
  have e: "entryAt off t a mta k e"
    by (simp add: entryAt_def d interestEntry_def e_def)
  have step: "j < length (es @ [e]) \<Longrightarrow> entryAt off t a mta (Suc j) ((es @ [e]) ! j)" for j
    using "1.prems"(1,2) e by (cases "j < length es") (auto simp: nth_append less_Suc_eq)
  show ?case
  proof (cases g)
    case False
    then show ?thesis using "1.prems"(2,3) by (simp add: unf)
  next
    case g: True
    show ?thesis
    proof (cases brk)
      case True
      then show ?thesis using g step "1.prems"(3) by (simp add: unf)
    next
      case False
      have "entryAt off t a mta (Suc i) (interestLoop off today t det a mta (k + 1) (c + 1) (es @ [e]) ! i)"
      proof (rule "1.IH")
        show "(sY, sM, sD) = date t" by (simp add: d)
        show "(sM, sD) = (sM, sD)" by simp
        show "0 < mta \<and> periodDate sY sM sD mta (int k) \<le> today" using g by (simp add: g_def)
        show "es @ [e] = es @ [interestEntry off t a (returnPeriod det) c (periodDate sY sM sD mta (int k))]"
          by (simp add: e_def)
        show "k + 1 = k + 1" by simp
        show "periodDate sY sM sD mta (int (k + 1)) = periodDate sY sM sD mta (int (k + 1))" by simp
        show "\<not> (case maturityDate det of None \<Rightarrow> False
             | Some mat \<Rightarrow> parseDate off mat < periodDate sY sM sD mta (int (k + 1)))"
          using False unfolding brk_def Suc_eq_plus1 .
        show "k + 1 = Suc (length (es @ [e]))" using "1.prems"(1) by simp
        show "\<And>j. j < length (es @ [e]) \<Longrightarrow> entryAt off t a mta (Suc j) ((es @ [e]) ! j)" using step .
        show "i < length (interestLoop off today t det a mta (k + 1) (c + 1) (es @ [e]))"
          using "1.prems"(3) g False by (simp add: unf)
      qed
      then show ?thesis using g False by (simp add: unf)
    qed
  qed
qed

section \<open>Zone facts and evaluated examples\<close>

lemma carryDays_same: "0 \<le> ms \<Longrightarrow> ms < msPerDay \<Longrightarrow> carryDays d ms = (d, ms)"
  by (simp add: carryDays_def addDays_def)

lemma parseDate_east: "- 1440 < off \<Longrightarrow> off \<le> 0 \<Longrightarrow> parseDate off d = (d, - (off * 60000))"
  unfolding parseDate_def by (rule carryDays_same) (simp_all add: msPerDay_def)

lemma toISODate_west: "0 \<le> off \<Longrightarrow> off < 1440 \<Longrightarrow> toISODate off (d, 0) = d"
  using carryDays_same [of "off * 60000" d] by (simp add: toISODate_def msPerDay_def)

lemma toISODate_east: "- 1440 \<le> off \<Longrightarrow> off < 0 \<Longrightarrow> toISODate off (d, 0) = prevDay d"
proof -
  assume "- 1440 \<le> off" "off < 0"
  then have "(off * 60000) div msPerDay = - 1"
    by (simp add: msPerDay_def div_eq_minus1 zdiv_eq_0_iff)
  then show ?thesis by (simp add: toISODate_def carryDays_def addDays_def)
qed

lemma leap2024: "daysInMonth 2024 2 = 29" by (simp add: daysInMonth_def isLeap_def)

lemma valid_jan31: "validDate (2024, 1, 31)" by (simp add: validDate_def daysInMonth_def)

lemma valid_jan15: "validDate (2024, 1, 15)" by (simp add: validDate_def daysInMonth_def)

lemma jan31_dates:
  "periodDate 2024 1 31 1 1 = ((2024, 2, 29), 0)"
  "periodDate 2024 1 31 1 2 = ((2024, 3, 31), 0)"
  "periodDate 2024 1 31 1 3 = ((2024, 4, 30), 0)"
  by (simp_all add: periodDate_valid [OF valid_jan31] specAddMonths_def leap2024)
     (simp_all add: daysInMonth_def)

lemma jan15_dates:
  "periodDate 2024 1 15 3 1 = ((2024, 4, 15), 0)"
  "periodDate 2024 1 15 3 2 = ((2024, 7, 15), 0)"
  by (simp_all add: periodDate_valid [OF valid_jan15] specAddMonths_def)
     (simp_all add: daysInMonth_def)

lemma exMonthly_fields:
  "date exMonthlyTx = (2024, 1, 31)" "investorDetails exMonthlyTx = Some exMonthlyDetails"
  "amount exMonthlyTx = 120000" "roi exMonthlyDetails = 12" "returnPeriod exMonthlyDetails = Monthly"
  "maturityDate exMonthlyDetails = Some (2025, 1, 31)" "periodicInterestAmount exMonthlyDetails = None"
  by (simp_all add: exMonthlyTx_def exMonthlyDetails_def)

lemma exMonthly_loop:
  "interestLoop off ((2024, 4, 10), msPerDay - 1) exMonthlyTx det a 1 1 1 [] =
     [interestEntry off exMonthlyTx a (returnPeriod det) 1 ((2024, 2, 29), 0),
      interestEntry off exMonthlyTx a (returnPeriod det) 2 ((2024, 3, 31), 0)]"
  if "maturityDate det = Some (2025, 1, 31)" "- 1440 < off" "off \<le> 0"
proof -
  have d: "date exMonthlyTx = (2024, 1, 31)" by (simp add: exMonthlyTx_def)
  have p: "parseDate off (2025, 1, 31) = ((2025, 1, 31), - (off * 60000))"
    using that by (simp add: parseDate_east)
  show ?thesis
    apply (subst interestLoop_unfold [OF d])
    apply (simp add: jan31_dates that p)
    apply (subst interestLoop_unfold [OF d])
    apply (simp add: jan31_dates that p)
    apply (subst interestLoop_unfold [OF d])
    apply (simp add: jan31_dates that p numeral_2_eq_2)
    done
qed

section \<open>Facts about the payment calendar\<close>

lemma eventLoop_unfold:
  assumes "date t = (sY, sM, sD)"
  shows "eventLoop today endDate mDate t det pa mta k sc events =
     (if sc < 50 then
        (if mDate < periodDate sY sM sD mta (int k) then events
         else if today \<le> periodDate sY sM sD mta (int k) then
           (if endDate < periodDate sY sM sD mta (int k) then events
            else eventLoop today endDate mDate t det pa mta (Suc k) (Suc sc)
                   (events @ [interestEvent t det pa (periodDate sY sM sD mta (int k))]))
         else eventLoop today endDate mDate t det pa mta (Suc k) (Suc sc) events)
      else events)"
  by (subst eventLoop.simps) (simp add: assms Let_def)

lemma specAddMonths_mono:
  assumes "a < b"
  shows "specAddMonths d a < specAddMonths d b"
proof -
  obtain y m dd where d: "d = (y, m, dd)" by (cases d) auto
  define ia where "ia = 12 * y + (m - 1) + a"
  define ib where "ib = 12 * y + (m - 1) + b"
  have "ia < ib" using assms by (simp add: ia_def ib_def)
  then have "ia div 12 < ib div 12 \<or> (ia div 12 = ib div 12 \<and> ia mod 12 < ib mod 12)"
    by presburger
  then show ?thesis
    by (auto simp: d specAddMonths_def Let_def ia_def [symmetric] ib_def [symmetric])
qed

lemma periodDate_mono:
  assumes "validDate (sY, sM, sD)" "0 < mta" "i < j"
  shows "periodDate sY sM sD mta (int i) < periodDate sY sM sD mta (int j)"
proof -
  have "mta * int i < mta * int j" using assms by simp
  then show ?thesis
    using specAddMonths_mono [of "mta * int i" "mta * int j" "(sY, sM, sD)"]
    by (simp add: periodDate_valid [OF assms(1)])
qed

lemma eventLoop_closed:
  assumes d: "date t = (sY, sM, sD)" and mono: "\<And>i j. i < j \<Longrightarrow> D i < D j"
    and D: "\<And>i. D i = periodDate sY sM sD mta (int i)"
  shows "50 - sc = n \<Longrightarrow> eventLoop today endDate mDate t det pa mta k sc events =
     events @ map (\<lambda>j. interestEvent t det pa (D j))
       (filter (\<lambda>j. today \<le> D j \<and> D j \<le> endDate \<and> D j \<le> mDate) [k ..< k + n])"
proof (induction n arbitrary: k sc events)
  case 0
  then show ?case by (subst eventLoop_unfold [OF d]) simp
next
  case (Suc n)
  define W where "W = (\<lambda>j. today \<le> D j \<and> D j \<le> endDate \<and> D j \<le> mDate)"
  define ev where "ev = (\<lambda>j. interestEvent t det pa (D j))"
  have sc: "sc < 50" "50 - Suc sc = n" using Suc.prems by simp_all
  have IH: "eventLoop today endDate mDate t det pa mta (Suc k) (Suc sc) es =
      es @ map ev (filter W [Suc k ..< Suc k + n])" for es
    unfolding W_def ev_def by (rule Suc.IH [OF sc(2)])
  have later: "k \<le> j \<Longrightarrow> D k \<le> D j" for j
    using mono [of k j] by (cases "k = j") (auto simp: less_imp_le)
  have "[k ..< k + Suc n] = k # [Suc k ..< Suc k + n]"
    by (simp add: upt_conv_Cons)
  then have F: "map ev (filter W [k ..< k + Suc n]) =
      (if W k then [ev k] else []) @ map ev (filter W [Suc k ..< Suc k + n])"
    by simp
  have none: "\<not> D k \<le> mDate \<or> (today \<le> D k \<and> \<not> D k \<le> endDate) \<Longrightarrow>
      map ev (filter W [k ..< k + Suc n]) = []"
  proof -
    assume a: "\<not> D k \<le> mDate \<or> (today \<le> D k \<and> \<not> D k \<le> endDate)"
    have "\<not> W j" if "k \<le> j" for j
      using a later [OF that] by (auto simp: W_def)
    then have "filter W [k ..< k + Suc n] = []" by (auto simp: filter_empty_conv)
    then show ?thesis by simp
  qed
  have goal: "eventLoop today endDate mDate t det pa mta k sc events =
      events @ map ev (filter W [k ..< k + Suc n])"
  proof (cases "mDate < D k")
    case True
    then have "eventLoop today endDate mDate t det pa mta k sc events = events"
      using sc by (subst eventLoop_unfold [OF d]) (simp add: D [symmetric])
    moreover have "map ev (filter W [k ..< k + Suc n]) = []" using True by (intro none) auto
    ultimately show ?thesis by simp
  next
    case m: False
    show ?thesis
    proof (cases "today \<le> D k")
      case t: True
      show ?thesis
      proof (cases "endDate < D k")
        case True
        then have "eventLoop today endDate mDate t det pa mta k sc events = events"
          using sc m t by (subst eventLoop_unfold [OF d]) (simp add: D [symmetric])
        moreover have "map ev (filter W [k ..< k + Suc n]) = []" using True t by (intro none) auto
        ultimately show ?thesis by simp
      next
        case False
        have "eventLoop today endDate mDate t det pa mta k sc events =
            eventLoop today endDate mDate t det pa mta (Suc k) (Suc sc) (events @ [ev k])"
          using False m t sc by (subst eventLoop_unfold [OF d]) (simp add: D [symmetric] ev_def)
        moreover have "W k" using False m t by (simp add: W_def not_less)
        ultimately show ?thesis unfolding F IH by simp
      qed
    next
      case False
      have "eventLoop today endDate mDate t det pa mta k sc events =
            eventLoop today endDate mDate t det pa mta (Suc k) (Suc sc) events"
        using False m sc by (subst eventLoop_unfold [OF d]) (simp add: D [symmetric])
      moreover have "\<not> W k" using False by (simp add: W_def)
      ultimately show ?thesis unfolding F IH by simp
    qed
  qed
  then show ?case unfolding W_def ev_def .
qed

lemma eventLoop_append:
  assumes d: "date t = (sY, sM, sD)"
  shows "50 - sc = n \<Longrightarrow> eventLoop today endDate mDate t det pa mta k sc events =
     events @ eventLoop today endDate mDate t det pa mta k sc []"
proof (induction n arbitrary: k sc events)
  case 0
  then show ?case by (subst (1 2) eventLoop_unfold [OF d]) simp
next
  case (Suc n)
  then have sc: "50 - Suc sc = n" by simp
  define nd where "nd = periodDate sY sM sD mta (int k)"
  define e where "e = interestEvent t det pa nd"
  have unf: "eventLoop today endDate mDate t det pa mta k sc es =
     (if sc < 50 then
        (if mDate < nd then es
         else if today \<le> nd then
           (if endDate < nd then es
            else eventLoop today endDate mDate t det pa mta (Suc k) (Suc sc) (es @ [e]))
         else eventLoop today endDate mDate t det pa mta (Suc k) (Suc sc) es)
      else es)" for es
    unfolding nd_def e_def by (rule eventLoop_unfold [OF d])
  have A: "eventLoop today endDate mDate t det pa mta (Suc k) (Suc sc) (events @ [e]) =
      events @ [e] @ eventLoop today endDate mDate t det pa mta (Suc k) (Suc sc) []"
    using Suc.IH [OF sc, of "Suc k" "events @ [e]"] by simp
  have B: "eventLoop today endDate mDate t det pa mta (Suc k) (Suc sc) [e] =
      [e] @ eventLoop today endDate mDate t det pa mta (Suc k) (Suc sc) []"
    by (rule Suc.IH [OF sc])
  have C: "eventLoop today endDate mDate t det pa mta (Suc k) (Suc sc) events =
      events @ eventLoop today endDate mDate t det pa mta (Suc k) (Suc sc) []"
    by (rule Suc.IH [OF sc])
  show ?case unfolding unf [of events] unf [of "[]"] by (simp add: A B C)
qed


lemma txEvents_append:
  "txEvents off today endDate events t = events @ txEvents off today endDate [] t"
proof -
  obtain sY sM sD where d: "date t = (sY, sM, sD)" by (cases "date t") auto
  have a: "eventLoop today endDate mDate t det pa mta (Suc 0) 0 es =
       es @ eventLoop today endDate mDate t det pa mta (Suc 0) 0 []" for mDate det pa mta es
    by (rule eventLoop_append [OF d]) simp
  have b: "eventLoop today endDate mDate t det pa mta (Suc 0) 0 (events @ [e]) =
       events @ eventLoop today endDate mDate t det pa mta (Suc 0) 0 [e]" for mDate det pa mta e
    using a [of mDate det pa mta "events @ [e]"] a [of mDate det pa mta "[e]"] by simp
  show ?thesis
  proof (cases "investorDetails t")
    case None
    then show ?thesis by (simp add: txEvents_def)
  next
    case (Some det)
    show ?thesis
    proof (cases "maturityDate det")
      case None
      then show ?thesis using Some by (simp add: txEvents_def)
    next
      case mat: (Some mat)
      show ?thesis
      proof (cases "periodicInterestAmount det")
        case None
        then show ?thesis using Some mat by (simp add: txEvents_def Let_def)
      next
        case pa: (Some pa)
        show ?thesis
          using Some mat pa
            a [of "startOfDay (parseDate off mat)" det pa "monthsToAddOf (returnPeriod det)" events]
          by (simp add: txEvents_def Let_def b)
      qed
    qed
  qed
qed

lemma allEvents_concat:
  "allEvents off now timeFilter transactions =
     concat (map (txEvents off (startOfDay now) (windowEnd (startOfDay now) timeFilter) []) transactions)"
proof -
  have "foldl (txEvents off today endDate) acc txs = acc @ concat (map (txEvents off today endDate []) txs)"
    for today endDate acc txs
  proof (induction txs arbitrary: acc)
    case Nil
    then show ?case by simp
  next
    case (Cons t txs)
    show ?case
      by (simp add: Cons.IH [of "txEvents off today endDate acc t"]) (subst txEvents_append, simp)
  qed
  then show ?thesis by (simp add: allEvents_def Let_def)
qed

lemma startOfDay_parseDate_east:
  "- 1440 < off \<Longrightarrow> off \<le> 0 \<Longrightarrow> startOfDay (parseDate off mat) = (mat, 0)"
  by (simp add: parseDate_east startOfDay_def)

lemma exLong_fields:
  "date exLongTx = (2019, 1, 15)" "investorDetails exLongTx = Some exLongDetails"
  "amount exLongTx = 100000" "roi exLongDetails = 12"
  "returnPeriod exLongDetails = Monthly" "maturityDate exLongDetails = Some (2029, 1, 15)"
  "periodicInterestAmount exLongDetails = Some 1000"
  by (simp_all add: exLongTx_def exLongDetails_def)

lemma valid_2019: "validDate (2019, 1, 15)" by (simp add: validDate_def daysInMonth_def)

lemma txEvents_interest:
  assumes "date t = (sY, sM, sD)" and "validDate (sY, sM, sD)"
    and "investorDetails t = Some det" and "maturityDate det = Some mat"
    and "returnPeriod det \<noteq> Maturity" and "periodicInterestAmount det = Some pa" and "pa \<noteq> 0"
  shows "txEvents off today endDate [] t =
     (if today \<le> startOfDay (parseDate off mat) \<and> startOfDay (parseDate off mat) \<le> endDate
      then [principalEvent t det (startOfDay (parseDate off mat))] else []) @
     map (\<lambda>N. interestEvent t det pa (specAddMonths (sY, sM, sD) (monthsToAddOf (returnPeriod det) * int N), 0))
       (filter (\<lambda>N. today \<le> (specAddMonths (sY, sM, sD) (monthsToAddOf (returnPeriod det) * int N), 0)
                   \<and> (specAddMonths (sY, sM, sD) (monthsToAddOf (returnPeriod det) * int N), 0) \<le> endDate
                   \<and> (specAddMonths (sY, sM, sD) (monthsToAddOf (returnPeriod det) * int N), 0)
                        \<le> startOfDay (parseDate off mat))
          [1 ..< 51])"
proof -
  define mta where "mta = monthsToAddOf (returnPeriod det)"
  define D where "D = (\<lambda>N::nat. (specAddMonths (sY, sM, sD) (mta * int N), 0::int))"
  define mDate where "mDate = startOfDay (parseDate off mat)"
  define ev1 where "ev1 = (if today \<le> mDate \<and> mDate \<le> endDate then [principalEvent t det mDate] else [])"
  have mta: "0 < mta" using assms(5) by (cases "returnPeriod det") (simp_all add: mta_def monthsToAddOf_def)
  have D: "D i = periodDate sY sM sD mta (int i)" for i
    by (simp add: D_def periodDate_valid [OF assms(2)])
  have mono: "i < j \<Longrightarrow> D i < D j" for i j
    unfolding D using assms(2) mta by (rule periodDate_mono)
  have "txEvents off today endDate [] t = eventLoop today endDate mDate t det pa mta (Suc 0) 0 ev1"
    using assms(3,4,5,6,7) mta by (simp add: txEvents_def Let_def mta_def mDate_def ev1_def)
  also have "\<dots> = ev1 @ map (\<lambda>j. interestEvent t det pa (D j))
       (filter (\<lambda>j. today \<le> D j \<and> D j \<le> endDate \<and> D j \<le> mDate) [Suc 0 ..< Suc 0 + 50])"
    using eventLoop_closed [where D = D and sc = 0 and n = 50 and k = "Suc 0", OF assms(1) mono D]
    by simp
  finally show ?thesis by (simp add: ev1_def D_def mDate_def mta_def)
qed

lemma windowEnd_feb2019: "windowEnd ((2019, 2, 1), 0) Next30 = ((2019, 3, 3), 0)"
proof -
  have "daysInMonth 2019 2 = 28" by (simp add: daysInMonth_def isLeap_def)
  then have "addDays 30 (2019, 2, 1) = (2019, 3, 3)"
    using addDays_overflow [of 2019 2 30] by simp
  then show ?thesis
    by (simp add: windowEnd_def filterDays_def setDate_def getDate_def getFullYear_def getMonth_def
        MakeDay_def)
qed

lemma windowEnd_jun2024: "windowEnd ((2024, 6, 1), 0) Next30 = ((2024, 7, 1), 0)"
proof -
  have "daysInMonth 2024 6 = 30" by (simp add: daysInMonth_def)
  then have "addDays 30 (2024, 6, 1) = (2024, 7, 1)"
    using addDays_overflow [of 2024 6 30] by simp
  then show ?thesis
    by (simp add: windowEnd_def filterDays_def setDate_def getDate_def getFullYear_def getMonth_def
        MakeDay_def)
qed

lemma exLong_dates:
  "specAddMonths (2019, 1, 15) 1 = (2019, 2, 15)"
  "specAddMonths (2019, 1, 15) 50 = (2023, 3, 15)"
  "specAddMonths (2019, 1, 15) 65 = (2024, 6, 15)"
  by (simp_all add: specAddMonths_def) (simp_all add: daysInMonth_def)

lemma pair_le_fst: "(a :: ymd, x :: int) \<le> (b, y) \<Longrightarrow> a \<le> b"
  by (auto simp: less_imp_le)

lemma txEvents_past_periods:
  assumes "date t = (sY, sM, sD)" and "validDate (sY, sM, sD)"
    and "investorDetails t = Some det" and "maturityDate det = Some mat"
    and "returnPeriod det \<noteq> Maturity" and "periodicInterestAmount det = Some pa" and "pa \<noteq> 0"
    and "\<And>N. N < 51 \<Longrightarrow>
      \<not> today \<le> (specAddMonths (sY, sM, sD) (monthsToAddOf (returnPeriod det) * int N), 0)"
  shows "txEvents off today endDate [] t =
     (if today \<le> startOfDay (parseDate off mat) \<and> startOfDay (parseDate off mat) \<le> endDate
      then [principalEvent t det (startOfDay (parseDate off mat))] else [])"
  unfolding txEvents_interest [OF assms(1-7)] using assms(8) by (auto simp: filter_empty_conv)

section \<open>Facts about the dashboard's payments\<close>

lemma clampTo_index:
  "okMonth (fst (clampTo day (newDate sY (sM - 1 + mta * k) sD))) \<and>
   12 * sY + (sM - 1 + mta * k) - max 0 (1 - sD) - 1
     \<le> monthIndex (fst (clampTo day (newDate sY (sM - 1 + mta * k) sD)))"
proof -
  let ?n = "newDate sY (sM - 1 + mta * k) sD"
  have n: "okMonth (fst ?n) \<and> 12 * sY + (sM - 1 + mta * k) - max 0 (1 - sD) \<le> monthIndex (fst ?n)"
    by (rule newDate_index)
  have s: "okMonth (fst (setDate ?n 0)) \<and> monthIndex (fst ?n) - 1 \<le> monthIndex (fst (setDate ?n 0))"
    using setDate_index [of ?n 0] n by simp
  show ?thesis
    using n s by (auto simp: clampTo_def)
qed

lemma clampTo_bound:
  assumes "clampTo day (newDate sY (sM - 1 + mta * k) sD) < today"
  shows "12 * sY + (sM - 1 + mta * k) - max 0 (1 - sD) \<le> 12 * fst (fst today) + 12"
proof -
  obtain y m d ms where c: "clampTo day (newDate sY (sM - 1 + mta * k) sD) = ((y, m, d), ms)"
    by (cases "clampTo day (newDate sY (sM - 1 + mta * k) sD)") auto
  obtain ty tm td tms where t: "today = ((ty, tm, td), tms)" by (cases today) auto
  have "y \<le> ty" using assms by (auto simp: c t)
  moreover have "m \<le> 12 \<and> 12 * sY + (sM - 1 + mta * k) - max 0 (1 - sD) - 1 \<le> 12 * y + m - 1"
    using clampTo_index [of day sY sM mta k sD] by (simp add: c okMonth_def monthIndex_def)
  ultimately show ?thesis by (simp add: t)
qed

termination fastForward
proof (relation "measure fastForwardMeasure")
  show "wf (measure fastForwardMeasure)" by simp
next
  fix today :: jsDate and sY sM sD startDay monthsToAdd :: int and nextDate :: jsDate
    and multiplier :: nat
  assume g: "0 < monthsToAdd \<and> nextDate < today"
  define nd where "nd = clampTo startDay (newDate sY (sM - 1 + monthsToAdd * int multiplier) sD)"
  define b where "b = 12 * fst (fst today) + 13 + max 0 (1 - sD)
      - (12 * sY + (sM - 1 + monthsToAdd * int multiplier))"
  have old: "fastForwardMeasure (today, sY, sM, sD, startDay, monthsToAdd, nextDate, multiplier)
      = 1 + nat b"
    using g by (simp add: fastForwardMeasure_def b_def)
  have new: "fastForwardMeasure (today, sY, sM, sD, startDay, monthsToAdd, nd, multiplier + 1)
      = (if nd < today then 1 + nat (b - monthsToAdd) else 0)"
    using g by (simp add: fastForwardMeasure_def b_def algebra_simps)
  have "nd < today \<Longrightarrow> 1 \<le> b"
    using clampTo_bound [of startDay sY sM monthsToAdd "int multiplier" sD today]
    by (simp add: nd_def b_def)
  then have "fastForwardMeasure (today, sY, sM, sD, startDay, monthsToAdd, nd, multiplier + 1)
      < fastForwardMeasure (today, sY, sM, sD, startDay, monthsToAdd, nextDate, multiplier)"
    unfolding old new using g by auto
  then show "((today, sY, sM, sD, startDay, monthsToAdd,
         clampTo startDay (newDate sY (sM - 1 + monthsToAdd * int multiplier) sD), multiplier + 1),
        (today, sY, sM, sD, startDay, monthsToAdd, nextDate, multiplier))
      \<in> measure fastForwardMeasure"
    unfolding nd_def by (simp only: in_measure)
qed

declare fastForward.simps [simp del]

lemma newDate_valid: "validDate (y, m, d) \<Longrightarrow> newDate y (m - 1) d = ((y, m, d), 0)"
proof -
  assume v: "validDate (y, m, d)"
  then have "(m - 1) div 12 = 0" "(m - 1) mod 12 = m - 1" by (simp_all add: validDate_def)
  then have "MakeDay y (m - 1) d = addDays (d - 1) (y, m, 1)" by (simp add: MakeDay_def)
  also have "\<dots> = (y, m, d)" using v addDays_within [of "d - 1" y m] by (simp add: validDate_def)
  finally show ?thesis using v by (simp add: newDate_def validDate_def)
qed

lemma clampTo_periodDate:
  "validDate (sY, sM, sD) \<Longrightarrow>
   clampTo (getDate (newDate sY (sM - 1) sD)) (newDate sY (sM - 1 + mta * k) sD)
     = periodDate sY sM sD mta k"
  by (simp add: newDate_valid getDate_def clampTo_def periodDate_def Let_def)

lemma periodDate_start:
  "validDate (sY, sM, sD) \<Longrightarrow> periodDate sY sM sD mta 0 = newDate sY (sM - 1) sD"
  by (simp add: periodDate_def Let_def newDate_valid getDate_def)

lemma fastForward_unfold:
  "fastForward today sY sM sD startDay mta nextDate k =
     (if 0 < mta \<and> nextDate < today
      then fastForward today sY sM sD startDay mta
             (clampTo startDay (newDate sY (sM - 1 + mta * int k) sD)) (Suc k)
      else nextDate)"
  by (subst fastForward.simps) simp

text \<open>
  The dashboard's loop moves to the first period, the start date counted as period 0, that
  is not before today.
\<close>

lemma fastForward_reaches:
  assumes v: "validDate (sY, sM, sD)" and mta: "0 < mta"
    and past: "\<And>j. j < n \<Longrightarrow> periodDate sY sM sD mta (int j) < today"
    and reach: "today \<le> periodDate sY sM sD mta (int n)"
    and le: "m \<le> n"
  shows "fastForward today sY sM sD (getDate (newDate sY (sM - 1) sD)) mta
           (periodDate sY sM sD mta (int m)) (Suc m) = periodDate sY sM sD mta (int n)"
  using le
proof (induction "n - m" arbitrary: m)
  case 0
  then have "m = n" by simp
  then have "\<not> periodDate sY sM sD mta (int m) < today" using reach by (simp add: not_less)
  then show ?case using \<open>m = n\<close> by (subst fastForward_unfold) simp
next
  case (Suc d)
  then have lt: "m < n" by simp
  then have p: "periodDate sY sM sD mta (int m) < today" by (rule past)
  have c: "clampTo (getDate (newDate sY (sM - 1) sD)) (newDate sY (sM - 1 + mta * int (Suc m)) sD)
      = periodDate sY sM sD mta (int (Suc m))"
    using v by (rule clampTo_periodDate)
  have "fastForward today sY sM sD (getDate (newDate sY (sM - 1) sD)) mta
           (periodDate sY sM sD mta (int (Suc m))) (Suc (Suc m)) = periodDate sY sM sD mta (int n)"
    using Suc(2) lt by (intro Suc(1)) simp_all
  then show ?case
    using p mta by (subst fastForward_unfold) (simp only: c if_True simp_thms)
qed


section \<open>Facts about the investor accounts\<close>

lemma toLowerCase_examples:
  "toLowerCase ''Half-Yearly 2024'' = ''half-yearly 2024''"
  "toLowerCase [CHR 0xC9, CHR 0xD7, CHR 0xDE, CHR 0xDF, CHR 0xFF] = [CHR 0xE9, CHR 0xD7, CHR 0xFE, CHR 0xDF, CHR 0xFF]"
  by (simp_all add: toLowerCase_def lowerChar_def)

lemma keyOf_code:
  "keyOf t = (if investorNameOf t = [] then None else Some (toLowerCase (investorNameOf t)))"
  by (cases "txType t")
     (auto simp: keyOf_def investorNameOf_def hasInvestorName_def split: option.splits)

lemma accountStep_ok:
  "\<not> inheritedKey t \<Longrightarrow> accountStep off now accounts t = Inr (stepOk off now accounts t)"
  by (auto simp: accountStep_def stepOk_def inheritedKey_def applyTx_def keyOf_code Let_def
      split: if_splits)

lemma accountStep_throws:
  assumes "inheritedKey t" and "\<forall>k \<in> set inheritedKeys. map_of accounts k = None"
  shows "accountStep off now accounts t = Inl TypeError"
proof -
  have "investorNameOf t \<noteq> [] \<and> toLowerCase (investorNameOf t) \<in> set inheritedKeys"
    using assms(1) by (simp add: inheritedKey_def keyOf_code split: if_splits)
  then show ?thesis
    using assms(2) by (simp add: accountStep_def Let_def)
qed

lemma forEachTx_ok:
  "\<forall>t \<in> set txs. \<not> inheritedKey t \<Longrightarrow>
   forEachTx off now accounts txs = Inr (foldl (stepOk off now) accounts txs)"
  by (induction txs arbitrary: accounts) (simp_all add: accountStep_ok)

lemma stepOk_other_keys:
  assumes "\<not> inheritedKey t" and "\<forall>k \<in> set inheritedKeys. map_of accounts k = None"
  shows "\<forall>k \<in> set inheritedKeys. map_of (stepOk off now accounts t) k = None"
proof (cases "keyOf t")
  case None
  then show ?thesis using assms(2) by (simp add: stepOk_def)
next
  case (Some key)
  then have "key \<notin> set inheritedKeys" using assms(1) by (simp add: inheritedKey_def)
  then show ?thesis using assms(2) Some by (auto simp: stepOk_def update_conv')
qed

lemma forEachTx_throws:
  assumes "\<exists>t \<in> set txs. inheritedKey t" and "\<forall>k \<in> set inheritedKeys. map_of accounts k = None"
  shows "forEachTx off now accounts txs = Inl TypeError"
  using assms
proof (induction txs arbitrary: accounts)
  case Nil
  then show ?case by simp
next
  case (Cons t ts)
  show ?case
  proof (cases "inheritedKey t")
    case True
    then show ?thesis using Cons.prems(2) by (simp add: accountStep_throws)
  next
    case False
    then have "\<exists>t \<in> set ts. inheritedKey t" using Cons.prems(1) by simp
    moreover have "\<forall>k \<in> set inheritedKeys. map_of (stepOk off now accounts t) k = None"
      using False Cons.prems(2) by (rule stepOk_other_keys)
    ultimately have "forEachTx off now (stepOk off now accounts t) ts = Inl TypeError"
      by (rule Cons.IH)
    then show ?thesis using False by (simp add: accountStep_ok)
  qed
qed

lemma objectValues_set: "set (objectValues props) = snd ` set props"
  by (auto simp: objectValues_def image_iff)

lemma objectValues_distinct:
  fixes props :: "(string \<times> 'a) list"
  assumes "distinct (map f (map snd props))"
  shows "distinct (map f (objectValues props))"
proof -
  have d: "distinct props" using assms by (simp add: distinct_map)
  have i: "inj_on (\<lambda>p. f (snd p)) (set props)"
    using assms by (simp add: distinct_map comp_def inj_on_def)
  have "distinct (map (\<lambda>p. f (snd p)) (sort_key g (filter P props)))" for g :: "string \<times> 'a \<Rightarrow> nat" and P
    using d i by (auto simp: distinct_map inj_on_def)
  moreover have "distinct (map (\<lambda>p. f (snd p)) (filter P props))" for P
    using d i by (auto simp: distinct_map inj_on_def)
  moreover have "f (snd p) \<noteq> f (snd q)"
    if "p \<in> set props" "q \<in> set props" "arrayIndex (fst p) \<noteq> None" "arrayIndex (fst q) = None" for p q
    using that i by (auto simp: inj_on_def)
  ultimately show ?thesis
    by (auto simp: objectValues_def comp_def)
qed

lemma foldl_amounts: "foldl (\<lambda>s e. s + amount e) a es = a + sum_list (map amount es)"
  by (induction es arbitrary: a) simp_all

lemma key_cases:
  assumes "keyOf t = Some k"
  shows "(incomeOf k t \<and> \<not> expenseOf k t \<and> hasInvestorName t) \<or>
         (expenseOf k t \<and> \<not> incomeOf k t \<and> \<not> hasInvestorName t)"
  using assms
  by (cases "txType t")
     (auto simp: keyOf_code incomeOf_def expenseOf_def investorNameOf_def hasInvestorName_def
           split: if_splits option.splits)

lemma other_key:
  assumes "keyOf t \<noteq> Some k"
  shows "\<not> incomeOf k t" and "\<not> expenseOf k t"
  using assms by (simp_all add: incomeOf_def expenseOf_def)

lemma goodAccount_other:
  "keyOf t \<noteq> Some k \<Longrightarrow> goodAccount off now k (txs @ [t]) acc = goodAccount off now k txs acc"
  by (simp add: goodAccount_def ledgerPrincipal_def generatedInterest_def ledgerPaid_def other_key)

lemma no_key_filters:
  assumes "\<forall>t \<in> set txs. keyOf t \<noteq> Some k"
  shows "filter (incomeOf k) txs = []" and "filter (expenseOf k) txs = []"
  using assms by (auto simp: filter_empty_conv incomeOf_def expenseOf_def)

lemma goodAccount_new:
  assumes "\<forall>t' \<in> set txs. keyOf t' \<noteq> Some k" and "keyOf t = Some k"
  shows "goodAccount off now k (txs @ [t]) (applyTx off now t None)"
proof -
  have n: "toLowerCase (investorNameOf t) = k" using assms(2) by (auto simp: keyOf_code split: if_splits)
  show ?thesis
    using key_cases [OF assms(2)] n
    by (auto simp: goodAccount_def applyTx_def Let_def ledgerPrincipal_def generatedInterest_def
          ledgerPaid_def no_key_filters [OF assms(1)] foldl_amounts incomeOf_def expenseOf_def)
qed

lemma goodAccount_existing:
  assumes "goodAccount off now k txs acc" and "keyOf t = Some k"
  shows "goodAccount off now k (txs @ [t]) (applyTx off now t (Some acc))"
proof -
  have n: "toLowerCase (investorNameOf t) = k" using assms(2) by (auto simp: keyOf_code split: if_splits)
  show ?thesis
    using key_cases [OF assms(2)]
  proof
    assume a: "incomeOf k t \<and> \<not> expenseOf k t \<and> hasInvestorName t"
    then have "txType t = INCOME \<and> investorDetails t \<noteq> None" by (simp add: incomeOf_def)
    then show ?thesis
      using a assms(1) n
      by (simp add: goodAccount_def applyTx_def Let_def ledgerPrincipal_def generatedInterest_def
          ledgerPaid_def foldl_amounts)
  next
    assume a: "expenseOf k t \<and> \<not> incomeOf k t \<and> \<not> hasInvestorName t"
    then have "txType t = EXPENSE" by (simp add: expenseOf_def)
    then show ?thesis
      using a assms(1)
      by (simp add: goodAccount_def applyTx_def Let_def ledgerPrincipal_def generatedInterest_def
          ledgerPaid_def)
  qed
qed

lemma ledgerInv_step:
  assumes "ledgerInv off now al txs"
  shows "ledgerInv off now (stepOk off now al t) (txs @ [t])"
proof (cases "keyOf t")
  case None
  have "case map_of al k of
              None \<Rightarrow> (\<forall>t' \<in> set (txs @ [t]). keyOf t' \<noteq> Some k)
            | Some acc \<Rightarrow> goodAccount off now k (txs @ [t]) acc" for k
  proof -
    have o: "keyOf t \<noteq> Some k" using None by simp
    have "case map_of al k of
              None \<Rightarrow> (\<forall>t \<in> set txs. keyOf t \<noteq> Some k)
            | Some acc \<Rightarrow> goodAccount off now k txs acc"
      using assms by (simp add: ledgerInv_def)
    then show ?thesis
      using o by (cases "map_of al k") (simp_all add: goodAccount_other)
  qed
  then show ?thesis
    using assms None by (simp add: ledgerInv_def stepOk_def)
next
  case (Some kt)
  have d: "distinct (map fst (AList.update kt v al))" for v
    using assms by (simp add: ledgerInv_def distinct_update)
  have "case map_of (AList.update kt (applyTx off now t (map_of al kt)) al) k of
              None \<Rightarrow> (\<forall>t' \<in> set (txs @ [t]). keyOf t' \<noteq> Some k)
            | Some acc \<Rightarrow> goodAccount off now k (txs @ [t]) acc" for k
  proof (cases "k = kt")
    case True
    show ?thesis
    proof (cases "map_of al kt")
      case None
      have "case map_of al kt of
              None \<Rightarrow> (\<forall>t \<in> set txs. keyOf t \<noteq> Some kt)
            | Some acc \<Rightarrow> goodAccount off now kt txs acc"
        using assms by (simp add: ledgerInv_def)
      then have "\<forall>t' \<in> set txs. keyOf t' \<noteq> Some kt"
        by (simp only: None option.case)
      then show ?thesis
        using True None Some goodAccount_new [of txs kt t off now] by (simp add: update_conv')
    next
      case acc: (Some acc)
      have "case map_of al kt of
              None \<Rightarrow> (\<forall>t \<in> set txs. keyOf t \<noteq> Some kt)
            | Some acc \<Rightarrow> goodAccount off now kt txs acc"
        using assms by (simp add: ledgerInv_def)
      then have "goodAccount off now kt txs acc"
        by (simp only: acc option.case)
      then show ?thesis
        using True acc Some goodAccount_existing [of off now kt txs acc t] by (simp add: update_conv')
    qed
  next
    case False
    then have o: "keyOf t \<noteq> Some k" using Some by simp
    have "case map_of al k of
              None \<Rightarrow> (\<forall>t \<in> set txs. keyOf t \<noteq> Some k)
            | Some acc \<Rightarrow> goodAccount off now k txs acc"
      using assms by (simp add: ledgerInv_def)
    then show ?thesis
      using False o
      by (cases "map_of al k") (simp_all add: update_conv' goodAccount_other)
  qed
  then show ?thesis
    using d Some by (simp add: ledgerInv_def stepOk_def)
qed

lemma ledgerInv_foldl: "ledgerInv off now (foldl (stepOk off now) [] txs) txs"
proof (induction txs rule: rev_induct)
  case Nil
  then show ?case by (simp add: ledgerInv_def)
next
  case (snoc t txs)
  then show ?case using ledgerInv_step [of off now _ txs t] by simp
qed

lemma ledger_lookup:
  assumes "acc \<in> set (map snd (foldl (stepOk off now) [] txs))"
  shows "goodAccount off now (toLowerCase (accName acc)) txs acc"
proof -
  define al where "al = foldl (stepOk off now) [] txs"
  have inv: "ledgerInv off now al txs" unfolding al_def by (rule ledgerInv_foldl)
  obtain k where k: "(k, acc) \<in> set al" using assms by (auto simp: al_def)
  have "distinct (map fst al)" using inv by (simp add: ledgerInv_def)
  then have m: "map_of al k = Some acc" using k by simp
  have "case map_of al k of
              None \<Rightarrow> (\<forall>t \<in> set txs. keyOf t \<noteq> Some k)
            | Some acc \<Rightarrow> goodAccount off now k txs acc"
    using inv by (simp add: ledgerInv_def)
  then have g: "goodAccount off now k txs acc" by (simp only: m option.case)
  then have "toLowerCase (accName acc) = k" by (simp add: goodAccount_def)
  then show ?thesis using g by simp
qed

lemma ledger_keys:
  "map (\<lambda>a. toLowerCase (accName a)) (map snd (foldl (stepOk off now) [] txs))
     = map fst (foldl (stepOk off now) [] txs)"
proof -
  define al where "al = foldl (stepOk off now) [] txs"
  have "toLowerCase (accName (snd p)) = fst p" if "p \<in> set al" for p
  proof -
    have "snd p \<in> set (map snd (foldl (stepOk off now) [] txs))"
      using that by (simp add: al_def)
    then have g: "goodAccount off now (toLowerCase (accName (snd p))) txs (snd p)"
      by (rule ledger_lookup)
    have inv: "ledgerInv off now al txs" unfolding al_def by (rule ledgerInv_foldl)
    then have "distinct (map fst al)" by (simp add: ledgerInv_def)
    then have m: "map_of al (fst p) = Some (snd p)" using that by (cases p) simp
    have "case map_of al (fst p) of
              None \<Rightarrow> (\<forall>t \<in> set txs. keyOf t \<noteq> Some (fst p))
            | Some acc \<Rightarrow> goodAccount off now (fst p) txs acc"
      using inv by (simp add: ledgerInv_def)
    then have "goodAccount off now (fst p) txs (snd p)" by (simp only: m option.case)
    then show ?thesis by (simp add: goodAccount_def)
  qed
  then show ?thesis unfolding al_def [symmetric] by (induction al) auto
qed

lemma distinct_map_filter': "distinct (map f xs) \<Longrightarrow> distinct (map f (filter P xs))"
  by (induction xs) auto

section \<open>Facts about the wording of the specification\<close>

lemma specAddMonths_year:
  "fst (specAddMonths d n) = (monthIndex d + n) div 12"
  by (cases d) (simp add: specAddMonths_def monthIndex_def Let_def algebra_simps)

termination specDueDates
proof (relation "measure (\<lambda>(start, k, mat, N). nat (12 * fst mat + 12 - (monthIndex start + k * int N)))")
  show "wf (measure (\<lambda>(start, k, mat, N). nat (12 * fst mat + 12 - (monthIndex start + k * int N))))"
    by simp
next
  fix start :: ymd and k :: int and mat :: ymd and N :: nat
  assume a: "\<not> (k \<le> 0 \<or> mat < specAddMonths start (k * int N))"
  then have "specAddMonths start (k * int N) \<le> mat" by (simp add: not_less)
  then have "fst (specAddMonths start (k * int N)) \<le> fst mat"
    by (cases "specAddMonths start (k * int N)"; cases mat) (auto simp: less_imp_le)
  then have "(monthIndex start + k * int N) div 12 \<le> fst mat"
    by (simp only: specAddMonths_year)
  then have "monthIndex start + k * int N < 12 * fst mat + 12" by presburger
  moreover have "0 < k" using a by simp
  ultimately show "((start, k, mat, Suc N), (start, k, mat, N))
      \<in> measure (\<lambda>(start, k, mat, N). nat (12 * fst mat + 12 - (monthIndex start + k * int N)))"
    by (simp add: algebra_simps)
qed

declare specDueDates.simps [simp del]

lemma specDueDates_unfold:
  "specDueDates start k mat N =
     (if k \<le> 0 \<or> mat < specAddMonths start (k * int N) then []
      else specAddMonths start (k * int N) # specDueDates start k mat (Suc N))"
  by (subst specDueDates.simps) simp

section \<open>Facts about the category migration\<close>

lemma find_updateGroup:
  "find (\<lambda>c. group c = g) (updateGroup h f cs) =
     (if g = h then map_option (\<lambda>c. c \<lparr> items := f (items c) \<rparr>) (find (\<lambda>c. group c = g) cs)
      else find (\<lambda>c. group c = g) cs)"
  by (induction cs) auto

lemma findIndex_updateGroup:
  "findIndex (\<lambda>c. group c = g) (updateGroup h f cs) = findIndex (\<lambda>c. group c = g) cs"
  by (induction cs) auto

lemma findIndex_find:
  "findIndex P cs = Some i \<Longrightarrow> i < length cs \<and> find P cs = Some (cs ! i) \<and> P (cs ! i)"
proof (induction cs arbitrary: i)
  case Nil
  then show ?case by simp
next
  case (Cons c cs)
  then show ?case by (cases "P c") auto
qed

lemma findIndex_None: "findIndex P cs = None \<longleftrightarrow> find P cs = None"
  by (induction cs) auto

lemma update_at_index:
  "findIndex (\<lambda>c. group c = g) cs = Some i \<Longrightarrow>
   cs [i := (cs ! i) \<lparr> items := f (items (cs ! i)) \<rparr>] = updateGroup g f cs"
proof (induction cs arbitrary: i)
  case Nil
  then show ?case by simp
next
  case (Cons c cs)
  then show ?case by (cases "group c = g") auto
qed

lemma migration1_pending:
  "snd (migration1 cs) = pending1 cs" "\<not> pending1 cs \<Longrightarrow> migration1 cs = (cs, False)"
  by (auto simp: migration1_def pending1_def split: option.splits)

lemma ensureInvestments_pending:
  "snd (ensureInvestments cs) = pending2 cs" "\<not> pending2 cs \<Longrightarrow> ensureInvestments cs = (cs, False)"
  by (auto simp: ensureInvestments_def pending2_def Let_def split: option.splits)

lemma moveItem_pending:
  "snd (moveItem item (cs, ch)) = (ch \<or> pending3 item cs)"
  "\<not> pending3 item cs \<Longrightarrow> moveItem item (cs, ch) = (cs, ch)"
  by (auto simp: moveItem_def pending3_def split: option.splits)

lemma migrate_noMigration: "noMigration cs \<Longrightarrow> migrate cs = (cs, False)"
  by (simp add: noMigration_def migrate_def migration1_pending ensureInvestments_pending
      moveItem_pending)

lemma migrate_unchanged: "snd (migrate cs) = False \<longleftrightarrow> noMigration cs"
proof
  assume a: "snd (migrate cs) = False"
  obtain c1 ch1 where m1: "migration1 cs = (c1, ch1)" by (cases "migration1 cs") auto
  obtain c2 ch2 where m2: "ensureInvestments c1 = (c2, ch2)" by (cases "ensureInvestments c1") auto
  obtain c3 ch3 where m3: "moveItem ''SIP (Regular)'' (c2, ch1 \<or> ch2) = (c3, ch3)"
    by (cases "moveItem ''SIP (Regular)'' (c2, ch1 \<or> ch2)") auto
  have "\<not> snd (moveItem ''SIP (Gold)'' (c3, ch3))" using a by (simp add: migrate_def m1 m2 m3)
  then have g: "\<not> ch3" "\<not> pending3 ''SIP (Gold)'' c3" by (simp_all add: moveItem_pending)
  have "ch3 = snd (moveItem ''SIP (Regular)'' (c2, ch1 \<or> ch2))" by (simp add: m3)
  then have r: "\<not> ch1" "\<not> ch2" "\<not> pending3 ''SIP (Regular)'' c2" using g(1) by (simp_all add: moveItem_pending)
  have p1: "\<not> pending1 cs" using r(1) migration1_pending(1) [of cs] m1 by simp
  then have c1: "c1 = cs" using m1 by (simp add: migration1_pending)
  have p2: "\<not> pending2 cs" using r(2) ensureInvestments_pending(1) [of c1] m2 by (simp add: c1)
  then have c2: "c2 = cs" using m2 c1 by (simp add: ensureInvestments_pending)
  have c3: "c3 = cs" using m3 r(3) c2 by (simp add: moveItem_pending)
  show "noMigration cs" using p1 p2 r(3) g(2) c2 c3 by (simp add: noMigration_def)
next
  assume "noMigration cs"
  then show "snd (migrate cs) = False" by (simp add: migrate_noMigration)
qed

lemma noMigration_updateGroup:
  assumes "noMigration cs" and "find (\<lambda>c. group c = ''Investor Payments'') cs \<noteq> None"
  shows "noMigration (updateGroup ''Investor Payments'' f cs)"
  using assms
  by (simp add: noMigration_def pending1_def pending2_def pending3_def find_updateGroup
      split: option.splits)

lemma ensure_stored:
  assumes "stCategories st = Some cats" and "noMigration cats"
    and "find (\<lambda>c. group c = ''Investor Payments'') cats = Some g"
  shows "ensureInvestorCategory name st =
     (if list_ex (\<lambda>item. toLowerCase item = toLowerCase name) (items g) then st
      else st \<lparr> stCategories := Some (updateGroup ''Investor Payments'' (\<lambda>its. its @ [name]) cats) \<rparr>)"
proof -
  obtain i where i: "findIndex (\<lambda>c. group c = ''Investor Payments'') cats = Some i"
    using assms(3) findIndex_None [of "\<lambda>c. group c = ''Investor Payments''" cats]
    by (cases "findIndex (\<lambda>c. group c = ''Investor Payments'') cats") auto
  have g: "cats ! i = g" using findIndex_find [OF i] assms(3) by simp
  have gc: "getCategories st = (cats, st)"
    using assms(1,2) by (simp add: getCategories_def migrate_noMigration)
  have u: "cats [i := g \<lparr> items := items g @ [name] \<rparr>]
      = updateGroup ''Investor Payments'' (\<lambda>its. its @ [name]) cats"
    using update_at_index [OF i, of "\<lambda>its. its @ [name]"] g by simp
  show ?thesis
    using assms(1) by (simp add: ensureInvestorCategory_def gc i g u saveCategories_def Let_def)
qed

lemma ensure_fresh:
  assumes "stCategories st = None" and "find (\<lambda>c. group c = ''Investor Payments'') (defaultCategories st) = Some g"
  shows "ensureInvestorCategory name st =
     (if list_ex (\<lambda>item. toLowerCase item = toLowerCase name) (items g)
      then st \<lparr> stCategories := Some (defaultCategories st) \<rparr>
      else st \<lparr> stCategories := Some (updateGroup ''Investor Payments'' (\<lambda>its. its @ [name]) (defaultCategories st)),
                defaultCategories := updateGroup ''Investor Payments'' (\<lambda>its. its @ [name]) (defaultCategories st) \<rparr>)"
proof -
  define cats where "cats = defaultCategories st"
  obtain i where i: "findIndex (\<lambda>c. group c = ''Investor Payments'') cats = Some i"
    using assms(2) findIndex_None [of "\<lambda>c. group c = ''Investor Payments''" cats]
    by (cases "findIndex (\<lambda>c. group c = ''Investor Payments'') cats") (auto simp: cats_def)
  have g: "cats ! i = g" using findIndex_find [OF i] assms(2) by (simp add: cats_def)
  have gc: "getCategories st = (cats, st \<lparr> stCategories := Some cats \<rparr>)"
    using assms(1) by (simp add: getCategories_def cats_def)
  have u: "cats [i := g \<lparr> items := items g @ [name] \<rparr>]
      = updateGroup ''Investor Payments'' (\<lambda>its. its @ [name]) cats"
    using update_at_index [OF i, of "\<lambda>its. its @ [name]"] g by simp
  have "ensureInvestorCategory name st =
     (if list_ex (\<lambda>item. toLowerCase item = toLowerCase name) (items g)
      then st \<lparr> stCategories := Some cats, defaultCategories := cats \<rparr>
      else st \<lparr> stCategories := Some (updateGroup ''Investor Payments'' (\<lambda>its. its @ [name]) cats),
                defaultCategories := updateGroup ''Investor Payments'' (\<lambda>its. its @ [name]) cats \<rparr>)"
    using assms(1) by (simp add: ensureInvestorCategory_def gc i g u saveCategories_def Let_def)
  then show ?thesis by (simp add: cats_def)
qed

lemma ensure_again:
  assumes "stCategories st = Some cats" and "noMigration cats"
    and "find (\<lambda>c. group c = ''Investor Payments'') cats = Some g"
    and "list_ex (\<lambda>item. toLowerCase item = toLowerCase name) (items g)"
  shows "ensureInvestorCategory name st = st"
  using assms by (simp add: ensure_stored)

lemma appended_exists:
  "list_ex (\<lambda>item. toLowerCase item = toLowerCase name) (its @ [name])"
  by (simp add: list_ex_iff)

lemma ensure_idem_stored:
  assumes "stCategories st = Some cats" and "noMigration cats"
    and "find (\<lambda>c. group c = ''Investor Payments'') cats = Some g"
  shows "(list_ex (\<lambda>item. toLowerCase item = toLowerCase name) (items g) \<longrightarrow>
            ensureInvestorCategory name st = st)
       \<and> ensureInvestorCategory name (ensureInvestorCategory name st) = ensureInvestorCategory name st
       \<and> (distinct (map toLowerCase (items g)) \<longrightarrow>
            (case stCategories (ensureInvestorCategory name st) of None \<Rightarrow> False
             | Some cats' \<Rightarrow>
                 (case find (\<lambda>c. group c = ''Investor Payments'') cats' of None \<Rightarrow> False
                  | Some g' \<Rightarrow> distinct (map toLowerCase (items g')))))"
proof -
  note nm = assms(2)
  note e = ensure_stored [OF assms(1) nm assms(3), of name]
  show ?thesis
  proof (cases "list_ex (\<lambda>item. toLowerCase item = toLowerCase name) (items g)")
    case True
    then have "ensureInvestorCategory name st = st" using e by simp
    then show ?thesis using assms(1,3) by simp
  next
    case False
    define cats' where "cats' = updateGroup ''Investor Payments'' (\<lambda>its. its @ [name]) cats"
    define st' where "st' = st \<lparr> stCategories := Some cats' \<rparr>"
    have e1: "ensureInvestorCategory name st = st'" using e False by (simp add: st'_def cats'_def)
    have s': "stCategories st' = Some cats'" by (simp add: st'_def)
    have nm': "noMigration cats'"
      unfolding cats'_def using nm assms(3) by (intro noMigration_updateGroup) simp_all
    have f': "find (\<lambda>c. group c = ''Investor Payments'') cats' = Some (g \<lparr> items := items g @ [name] \<rparr>)"
      by (simp add: cats'_def find_updateGroup assms(3))
    have e2: "ensureInvestorCategory name st' = st'"
      by (rule ensure_again [OF s' nm' f']) (simp add: appended_exists)
    have "toLowerCase name \<notin> set (map toLowerCase (items g))"
      using False by (auto simp: list_ex_iff)
    then have d: "distinct (map toLowerCase (items g)) \<Longrightarrow> distinct (map toLowerCase (items g @ [name]))"
      by simp
    show ?thesis using False d by (simp add: e1 e2 s' f')
  qed
qed

chapter \<open>The claims\<close>

section \<open>Maturity date of the form\<close>

text \<open>
  C1. The form's maturity date is the start date plus the duration in calendar months, the
  day of month clamped to the last day of a shorter target month. The form does not clamp:
  for a start on 31 January 2024 and a duration of one month it stores 2 March 2024, where
  the clamped date is 29 February 2024.
\<close>

theorem formMaturityDate_rolls_over:
  "formMaturityDate (Some (2024, 1, 31)) (Some 1) = Some (2024, 3, 2) \<and>
   specAddMonths (2024, 1, 31) 1 = (2024, 2, 29)"
proof -
  have d: "daysInMonth 2024 2 = 29" by (simp add: daysInMonth_def isLeap_def)
  have "addDays 30 (2024, 2, 1) = (2024, 3, 2)"
    using addDays_overflow [of 2024 2 30] d by simp
  then have "newDate 2024 1 31 = ((2024, 3, 2), 0)"
    by (simp add: newDate_def MakeDay_def)
  then have "formMaturityDate (Some (2024, 1, 31)) (Some 1) = Some (2024, 3, 2)"
    by (simp add: formMaturityDate_def)
  moreover have "specAddMonths (2024, 1, 31) 1 = (2024, 2, 29)"
    by (simp add: specAddMonths_def d)
  ultimately show ?thesis by simp
qed

section \<open>Projected due dates\<close>

lemma generateInterestEntries_periodic:
  assumes "investorDetails t = Some det" "returnPeriod det \<noteq> Maturity"
  shows "generateInterestEntries off now t =
     (if roi det = 0 \<or> interestAmountOf t det \<le> 0 then []
      else interestLoop off (endOfDay now) t det (interestAmountOf t det)
             (monthsToAddOf (returnPeriod det)) 1 1 [])"
  using assms by (cases "returnPeriod det") (simp_all add: generateInterestEntries_def Let_def monthsToAddOf_def)

lemma generateInterestEntries_entryAt:
  assumes "investorDetails t = Some det" "returnPeriod det \<noteq> Maturity"
    and "i < length (generateInterestEntries off now t)"
  shows "entryAt off t (interestAmountOf t det) (monthsToAddOf (returnPeriod det)) (Suc i)
           (generateInterestEntries off now t ! i)"
proof (cases "roi det = 0 \<or> interestAmountOf t det \<le> 0")
  case True
  then show ?thesis using assms by (simp add: generateInterestEntries_periodic)
next
  case False
  then have eq: "generateInterestEntries off now t =
      interestLoop off (endOfDay now) t det (interestAmountOf t det) (monthsToAddOf (returnPeriod det)) 1 1 []"
    using assms by (simp add: generateInterestEntries_periodic)
  show ?thesis
    unfolding eq by (rule interestLoop_entries) (use assms(3) in \<open>simp_all add: eq\<close>)
qed

text \<open>
  What holds of the projected dates. For a periodic investor transaction with an existing
  start date, the Date of the N-th due date is local midnight of the start date plus N
  times 1, 3, 6 or 12 calendar months, computed from the start date, the day of month
  clamped to the last day of the target month. It is the time value of the N-th ledger
  entry and the value of \<open>periodDate\<close> in every projection. The \<open>date\<close> text of
  the ledger entry is the UTC day of that local midnight: the same day in a host zone at
  or west of UTC, the day before in a host zone east of UTC.
\<close>

lemma due_dates_clamped:
  assumes "date t = (sY, sM, sD)" and "validDate (sY, sM, sD)"
    and "investorDetails t = Some det" and "returnPeriod det \<noteq> Maturity"
    and "i < length (generateInterestEntries off now t)"
  shows "timestamp (generateInterestEntries off now t ! i)
           = (specAddMonths (sY, sM, sD) (monthsToAddOf (returnPeriod det) * int (Suc i)), 0)
       \<and> (0 \<le> off \<and> off < 1440 \<longrightarrow>
            date (generateInterestEntries off now t ! i)
              = specAddMonths (sY, sM, sD) (monthsToAddOf (returnPeriod det) * int (Suc i)))
       \<and> (- 1440 \<le> off \<and> off < 0 \<longrightarrow>
            date (generateInterestEntries off now t ! i)
              = prevDay (specAddMonths (sY, sM, sD) (monthsToAddOf (returnPeriod det) * int (Suc i))))
       \<and> periodDate sY sM sD (monthsToAddOf (returnPeriod det)) N
           = (specAddMonths (sY, sM, sD) (monthsToAddOf (returnPeriod det) * N), 0)
       \<and> monthsToAddOf (returnPeriod det)
           = (case returnPeriod det of Monthly \<Rightarrow> 1 | Quarterly \<Rightarrow> 3 | HalfYearly \<Rightarrow> 6
              | Yearly \<Rightarrow> 12 | Maturity \<Rightarrow> 0)"
proof -
  have e: "entryAt off t (interestAmountOf t det) (monthsToAddOf (returnPeriod det)) (Suc i)
           (generateInterestEntries off now t ! i)"
    using assms(3,4,5) by (rule generateInterestEntries_entryAt)
  have p: "periodDate sY sM sD mta k = (specAddMonths (sY, sM, sD) (mta * k), 0)" for mta k
    using assms(2) by (rule periodDate_valid)
  have m: "monthsToAddOf (returnPeriod det)
           = (case returnPeriod det of Monthly \<Rightarrow> 1 | Quarterly \<Rightarrow> 3 | HalfYearly \<Rightarrow> 6
              | Yearly \<Rightarrow> 12 | Maturity \<Rightarrow> 0)"
    by (cases "returnPeriod det") (simp_all add: monthsToAddOf_def)
  show ?thesis
    using e m by (simp add: entryAt_def assms(1) p toISODate_west toISODate_east)
qed

lemma exMonthly_entries:
  assumes "- 1440 < off" and "off \<le> 0"
  shows "generateInterestEntries off ((2024, 4, 10), 36000000) exMonthlyTx =
     [interestEntry off exMonthlyTx 1200 Monthly 1 ((2024, 2, 29), 0),
      interestEntry off exMonthlyTx 1200 Monthly 2 ((2024, 3, 31), 0)]"
proof -
  have a: "interestAmountOf exMonthlyTx exMonthlyDetails = 1200"
    by (simp add: interestAmountOf_def exMonthly_fields)
  have "generateInterestEntries off ((2024, 4, 10), 36000000) exMonthlyTx =
      interestLoop off ((2024, 4, 10), msPerDay - 1) exMonthlyTx exMonthlyDetails 1200 1 1 1 []"
    by (subst generateInterestEntries_periodic [OF exMonthly_fields(2)])
       (simp_all add: a exMonthly_fields monthsToAddOf_def endOfDay_def)
  then show ?thesis
    using exMonthly_loop [of exMonthlyDetails off 1200] assms by (simp add: exMonthly_fields)
qed

text \<open>
  In a host zone at UTC, a monthly investment started on 31 January 2024 projects
  29 February, then 31 March.
\<close>

lemma due_dates_clamped_example:
  "validDate (2024, 1, 31) \<and>
   timestamp (generateInterestEntries 0 ((2024, 4, 10), 36000000) exMonthlyTx ! 0) = ((2024, 2, 29), 0) \<and>
   timestamp (generateInterestEntries 0 ((2024, 4, 10), 36000000) exMonthlyTx ! 1) = ((2024, 3, 31), 0) \<and>
   date (generateInterestEntries 0 ((2024, 4, 10), 36000000) exMonthlyTx ! 1) = (2024, 3, 31) \<and>
   specAddMonths (2024, 1, 31) 1 = (2024, 2, 29) \<and> specAddMonths (2024, 1, 31) 2 = (2024, 3, 31) \<and>
   specAddMonths (2023, 1, 31) 1 = (2023, 2, 28)"
proof -
  note d = exMonthly_fields(2) and dt = exMonthly_fields(1)
  have rp: "returnPeriod exMonthlyDetails \<noteq> Maturity" by (simp add: exMonthly_fields)
  have len: "length (generateInterestEntries 0 ((2024, 4, 10), 36000000) exMonthlyTx) = 2"
    by (simp add: exMonthly_entries)
  have s: "specAddMonths (2024, 1, 31) 1 = (2024, 2, 29)" "specAddMonths (2024, 1, 31) 2 = (2024, 3, 31)"
    "specAddMonths (2023, 1, 31) 1 = (2023, 2, 28)"
    by (simp_all add: specAddMonths_def) (simp_all add: daysInMonth_def isLeap_def)
  have m: "monthsToAddOf (returnPeriod exMonthlyDetails) = 1"
    by (simp add: exMonthly_fields monthsToAddOf_def)
  show ?thesis
    using due_dates_clamped [OF dt valid_jan31 d rp, of 0 0 "((2024, 4, 10), 36000000)" 1]
      due_dates_clamped [OF dt valid_jan31 d rp, of 1 0 "((2024, 4, 10), 36000000)" 1]
    by (simp add: len s m valid_jan31)
qed

text \<open>
  C2. For a periodic investor transaction, the N-th projected interest-due date is the
  start date plus N times 1, 3, 6 or 12 calendar months, the day of month clamped to the
  last day of the target month: a monthly investment started on 31 January projects
  28 or 29 February, then 31 March. The ledger takes the \<open>date\<close> of an entry from
  \<^verbatim>\<open>toISOString()\<close>, the UTC day of the local midnight it has computed. In
  India (offset -330) the two entries of a monthly investment started on 31 January 2024
  carry the time values of 29 February and 31 March and the dates 28 February and
  30 March.
\<close>

theorem ledger_entry_date_day_before:
  "date exMonthlyTx = (2024, 1, 31) \<and> returnPeriod exMonthlyDetails = Monthly \<and>
   map timestamp (generateInterestEntries (- 330) ((2024, 4, 10), 36000000) exMonthlyTx)
     = [((2024, 2, 29), 0), ((2024, 3, 31), 0)] \<and>
   map date (generateInterestEntries (- 330) ((2024, 4, 10), 36000000) exMonthlyTx)
     = [(2024, 2, 28), (2024, 3, 30)] \<and>
   specAddMonths (2024, 1, 31) 1 = (2024, 2, 29) \<and> specAddMonths (2024, 1, 31) 2 = (2024, 3, 31)"
proof -
  have s: "specAddMonths (2024, 1, 31) 1 = (2024, 2, 29)" "specAddMonths (2024, 1, 31) 2 = (2024, 3, 31)"
    by (simp_all add: specAddMonths_def) (simp_all add: daysInMonth_def isLeap_def)
  have p: "prevDay (2024, 2, 29) = (2024, 2, 28)" "prevDay (2024, 3, 31) = (2024, 3, 30)"
    by (simp_all add: prevDay_def)
  show ?thesis
    by (simp add: exMonthly_entries interestEntry_def toISODate_east p s exMonthly_fields)
qed

section \<open>Interest entries and the maturity date\<close>

lemma exQuarterly_fields:
  "date exQuarterlyTx = (2024, 1, 15)" "investorDetails exQuarterlyTx = Some exQuarterlyDetails"
  "amount exQuarterlyTx = 120000" "roi exQuarterlyDetails = 12"
  "returnPeriod exQuarterlyDetails = Quarterly"
  "maturityDate exQuarterlyDetails = Some (2024, 3, 15)"
  "periodicInterestAmount exQuarterlyDetails = Some 3600"
  by (simp_all add: exQuarterlyTx_def exQuarterlyDetails_def)

text \<open>
  C3. No emitted interest-due event, the first one included, is dated after the maturity
  date. The ledger's loop tests the maturity date only after it has advanced, so the first
  entry is never tested: a quarterly investment of 15 January 2024 that matures on
  15 March 2024 gets, on 1 May 2024, an entry for 15 April 2024.
\<close>

theorem first_interest_entry_after_maturity:
  "map timestamp (generateInterestEntries (- 330) ((2024, 5, 1), 36000000) exQuarterlyTx)
     = [((2024, 4, 15), 0)] \<and>
   maturityDate exQuarterlyDetails = Some (2024, 3, 15) \<and>
   parseDate (- 330) (2024, 3, 15) < ((2024, 4, 15), 0)"
proof -
  have a: "interestAmountOf exQuarterlyTx exQuarterlyDetails = 3600"
    by (simp add: interestAmountOf_def exQuarterly_fields)
  have p: "parseDate (- 330) (2024, 3, 15) = ((2024, 3, 15), 19800000)"
    by (simp add: parseDate_east)
  have "generateInterestEntries (- 330) ((2024, 5, 1), 36000000) exQuarterlyTx =
      interestLoop (- 330) ((2024, 5, 1), msPerDay - 1) exQuarterlyTx exQuarterlyDetails 3600 3 1 1 []"
    by (subst generateInterestEntries_periodic [OF exQuarterly_fields(2)])
       (simp_all add: a exQuarterly_fields monthsToAddOf_def endOfDay_def)
  also have "\<dots> = [interestEntry (- 330) exQuarterlyTx 3600 Quarterly 1 ((2024, 4, 15), 0)]"
    by (subst interestLoop_unfold [OF exQuarterly_fields(1)])
       (simp add: jan15_dates exQuarterly_fields p)
  finally show ?thesis
    by (simp add: interestEntry_def exQuarterly_fields p)
qed

section \<open>The periodic interest amount\<close>

text \<open>
  C7. Without a stored periodic amount, the periodic interest amount of the form preview
  and of every entry of the ledger projection is (principal * rate / 100) divided by 12, 4,
  2 or 1 for Monthly, Quarterly, Half-Yearly or Yearly.
\<close>

theorem periodic_interest_amount:
  "(rp \<noteq> Maturity \<longrightarrow>
      formInterestAmount (Some p) (Some r) rp = (p * r / 100) / specPeriodsPerYear rp) \<and>
   (investorDetails t = Some det \<and> returnPeriod det \<noteq> Maturity \<and>
    (periodicInterestAmount det = None \<or> periodicInterestAmount det = Some 0) \<and>
    e \<in> set (generateInterestEntries off now t) \<longrightarrow>
      amount e = (amount t * roi det / 100) / specPeriodsPerYear (returnPeriod det))"
proof (intro conjI impI)
  assume "rp \<noteq> Maturity"
  then show "formInterestAmount (Some p) (Some r) rp = (p * r / 100) / specPeriodsPerYear rp"
    by (cases rp) (simp_all add: formInterestAmount_def specPeriodsPerYear_def)
next
  assume h: "investorDetails t = Some det \<and> returnPeriod det \<noteq> Maturity \<and>
    (periodicInterestAmount det = None \<or> periodicInterestAmount det = Some 0) \<and>
    e \<in> set (generateInterestEntries off now t)"
  then obtain i where i: "i < length (generateInterestEntries off now t)"
    and e: "e = generateInterestEntries off now t ! i"
    by (auto simp: in_set_conv_nth)
  have "entryAt off t (interestAmountOf t det) (monthsToAddOf (returnPeriod det)) (Suc i) e"
    unfolding e using h i by (intro generateInterestEntries_entryAt) simp_all
  then have am: "amount e = interestAmountOf t det"
    by (cases "date t") (simp add: entryAt_def)
  have "roi det \<noteq> 0"
    using h i generateInterestEntries_periodic [of t det off now] by auto
  then have "interestAmountOf t det = (amount t * roi det / 100) / specPeriodsPerYear (returnPeriod det)"
    using h by (cases "returnPeriod det") (auto simp: interestAmountOf_def specPeriodsPerYear_def)
  then show "amount e = (amount t * roi det / 100) / specPeriodsPerYear (returnPeriod det)"
    using am by simp
qed

theorem periodic_interest_amount_witness:
  "formInterestAmount (Some 120000) (Some 12) Monthly = 1200 \<and>
   formInterestAmount (Some 120000) (Some 12) Quarterly = 3600 \<and>
   formInterestAmount (Some 120000) (Some 12) HalfYearly = 7200 \<and>
   formInterestAmount (Some 120000) (Some 12) Yearly = 14400 \<and>
   periodicInterestAmount exMonthlyDetails = None \<and>
   generateInterestEntries 0 ((2024, 4, 10), 36000000) exMonthlyTx \<noteq> [] \<and>
   amount (hd (generateInterestEntries 0 ((2024, 4, 10), 36000000) exMonthlyTx)) = 1200"
proof -
  have ne: "generateInterestEntries 0 ((2024, 4, 10), 36000000) exMonthlyTx \<noteq> []"
    by (simp add: exMonthly_entries)
  then have m: "hd (generateInterestEntries 0 ((2024, 4, 10), 36000000) exMonthlyTx)
      \<in> set (generateInterestEntries 0 ((2024, 4, 10), 36000000) exMonthlyTx)"
    by simp
  show ?thesis
    using periodic_interest_amount [of Monthly 120000 12 exMonthlyTx exMonthlyDetails
        "hd (generateInterestEntries 0 ((2024, 4, 10), 36000000) exMonthlyTx)" 0 "((2024, 4, 10), 36000000)"]
      periodic_interest_amount [of Quarterly 120000 12 exMonthlyTx exMonthlyDetails
        "hd (generateInterestEntries 0 ((2024, 4, 10), 36000000) exMonthlyTx)" 0 "((2024, 4, 10), 36000000)"]
      periodic_interest_amount [of HalfYearly 120000 12 exMonthlyTx exMonthlyDetails
        "hd (generateInterestEntries 0 ((2024, 4, 10), 36000000) exMonthlyTx)" 0 "((2024, 4, 10), 36000000)"]
      periodic_interest_amount [of Yearly 120000 12 exMonthlyTx exMonthlyDetails
        "hd (generateInterestEntries 0 ((2024, 4, 10), 36000000) exMonthlyTx)" 0 "((2024, 4, 10), 36000000)"]
      ne m
    by (simp add: exMonthly_fields specPeriodsPerYear_def)
qed

section \<open>Interest at maturity\<close>






section \<open>The calendar's interest events\<close>

text \<open>
  What the calendar's loop emits. For a periodic investor transaction with an existing
  start date, a stored non-zero periodic interest amount and a maturity date, and every
  window from today to an end date, the interest events are the occurrences, among the
  periods 1 to 50 after the start date, whose date lies in the window and is not after the
  maturity date, in order: the loop counts its 50 iterations from the first period after
  the start date, whether that period is past or not. The maturity date is the local day
  of midnight UTC of its text: in a host zone at or east of UTC, the maturity date itself.
\<close>

lemma calendar_loop_events:
  assumes "date t = (sY, sM, sD)" and "validDate (sY, sM, sD)"
    and "investorDetails t = Some det" and "maturityDate det = Some mat"
    and "returnPeriod det \<noteq> Maturity" and "periodicInterestAmount det = Some pa" and "pa \<noteq> 0"
  shows "filter (\<lambda>e. evType e = INTEREST) (txEvents off today endDate [] t) =
     map (\<lambda>N. interestEvent t det pa (specAddMonths (sY, sM, sD) (monthsToAddOf (returnPeriod det) * int N), 0))
       (filter (\<lambda>N. today \<le> (specAddMonths (sY, sM, sD) (monthsToAddOf (returnPeriod det) * int N), 0)
                   \<and> (specAddMonths (sY, sM, sD) (monthsToAddOf (returnPeriod det) * int N), 0) \<le> endDate
                   \<and> (specAddMonths (sY, sM, sD) (monthsToAddOf (returnPeriod det) * int N), 0)
                        \<le> startOfDay (parseDate off mat))
          [1 ..< 51])
     \<and> (- 1440 < off \<and> off \<le> 0 \<longrightarrow> startOfDay (parseDate off mat) = (mat, 0))
     \<and> allEvents off now timeFilter transactions =
         concat (map (txEvents off (startOfDay now) (windowEnd (startOfDay now) timeFilter) []) transactions)"
proof -
  have "filter (\<lambda>e. evType e = INTEREST) (map (\<lambda>N. interestEvent t det pa (f N)) ns)
      = map (\<lambda>N. interestEvent t det pa (f N)) ns" for f :: "nat \<Rightarrow> jsDate" and ns
    by (induction ns) (simp_all add: interestEvent_def)
  then show ?thesis
    using startOfDay_parseDate_east [of off mat] allEvents_concat [of off now timeFilter transactions]
    by (simp add: txEvents_interest [OF assms] principalEvent_def)
qed

text \<open>
  An investment that is one month old: the first occurrence lies in the window of 30 days
  and is emitted.
\<close>

lemma calendar_loop_events_example:
  "validDate (2019, 1, 15) \<and>
   interestEvent exLongTx exLongDetails 1000 ((2019, 2, 15), 0)
     \<in> set (filter (\<lambda>e. evType e = INTEREST)
         (txEvents (- 330) ((2019, 2, 1), 0) (windowEnd ((2019, 2, 1), 0) Next30) [] exLongTx))"
proof -
  let ?f = "\<lambda>N :: nat. interestEvent exLongTx exLongDetails 1000
      (specAddMonths (2019, 1, 15) (monthsToAddOf (returnPeriod exLongDetails) * int N), 0)"
  let ?W = "\<lambda>N. ((2019, 2, 1), 0 :: int)
        \<le> (specAddMonths (2019, 1, 15) (monthsToAddOf (returnPeriod exLongDetails) * int N), 0)
      \<and> (specAddMonths (2019, 1, 15) (monthsToAddOf (returnPeriod exLongDetails) * int N), 0)
        \<le> windowEnd ((2019, 2, 1), 0) Next30
      \<and> (specAddMonths (2019, 1, 15) (monthsToAddOf (returnPeriod exLongDetails) * int N), 0)
        \<le> startOfDay (parseDate (- 330) (2029, 1, 15))"
  have rp: "returnPeriod exLongDetails \<noteq> Maturity" by (simp add: exLong_fields)
  have nz: "(1000 :: real) \<noteq> 0" by simp
  have m: "monthsToAddOf (returnPeriod exLongDetails) = 1"
    by (simp add: exLong_fields monthsToAddOf_def)
  have p: "startOfDay (parseDate (- 330) (2029, 1, 15)) = ((2029, 1, 15), 0)"
    by (simp add: startOfDay_parseDate_east)
  have eq: "filter (\<lambda>e. evType e = INTEREST)
         (txEvents (- 330) ((2019, 2, 1), 0) (windowEnd ((2019, 2, 1), 0) Next30) [] exLongTx)
      = map ?f (filter ?W [1 ..< 51])"
    using calendar_loop_events [OF exLong_fields(1) valid_2019 exLong_fields(2,6) rp exLong_fields(7) nz,
        of "- 330" "((2019, 2, 1), 0)" "windowEnd ((2019, 2, 1), 0) Next30"]
    by (rule conjunct1)
  have "?W 1" by (simp add: m p windowEnd_feb2019 exLong_dates)
  then have "1 \<in> set (filter ?W [1 ..< 51])" by simp
  then have "?f 1 \<in> ?f ` set (filter ?W [1 ..< 51])" by (rule imageI)
  moreover have "?f 1 = interestEvent exLongTx exLongDetails 1000 ((2019, 2, 15), 0)"
    by (simp add: m exLong_dates)
  ultimately have "interestEvent exLongTx exLongDetails 1000 ((2019, 2, 15), 0)
      \<in> set (map ?f (filter ?W [1 ..< 51]))"
    by (simp only: set_map)
  then show ?thesis unfolding eq using valid_2019 by (rule conjI [rotated])
qed

lemma exLong_more: "txType exLongTx = INCOME" "investorName exLongDetails = ''Meera''"
  by (simp_all add: exLongTx_def exLongDetails_def)

lemma exLong_fastForward:
  "fastForward ((2024, 6, 1), 0) 2019 1 15 (getDate (newDate 2019 (1 - 1) 15)) 1
     (newDate 2019 (1 - 1) 15) (Suc 0) = ((2024, 6, 15), 0)"
proof -
  have past: "periodDate 2019 1 15 1 (int j) < ((2024, 6, 1), 0)" if "j < 65" for j
  proof -
    have e: "specAddMonths (2019, 1, 15) 64 = (2024, 5, 15)"
      by (simp add: specAddMonths_def) (simp add: daysInMonth_def)
    have "specAddMonths (2019, 1, 15) (int j) \<le> specAddMonths (2019, 1, 15) 64"
      using that specAddMonths_mono [of "int j" 64 "(2019, 1, 15)"] by (cases "j = 64") auto
    moreover have "(2024, 5, 15) < ((2024, 6, 1) :: ymd)" by simp
    ultimately have "specAddMonths (2019, 1, 15) (int j) < (2024, 6, 1)"
      unfolding e by (rule le_less_trans)
    then show ?thesis by (simp add: periodDate_valid [OF valid_2019])
  qed
  have reach: "((2024, 6, 1), 0) \<le> periodDate 2019 1 15 1 (int 65)"
    by (simp add: periodDate_valid [OF valid_2019] exLong_dates)
  have "fastForward ((2024, 6, 1), 0) 2019 1 15 (getDate (newDate 2019 (1 - 1) 15)) 1
     (periodDate 2019 1 15 1 (int 0)) (Suc 0) = periodDate 2019 1 15 1 (int 65)"
    using valid_2019 _ past reach by (rule fastForward_reaches) simp_all
  moreover have "periodDate 2019 1 15 1 (int 0) = newDate 2019 (1 - 1) 15"
    using periodDate_start [OF valid_2019, of 1] by simp
  moreover have "periodDate 2019 1 15 1 (int 65) = ((2024, 6, 15), 0)"
    by (simp add: periodDate_valid [OF valid_2019] exLong_dates)
  ultimately show ?thesis by (simp only:)
qed

lemma exLong_payments:
  "txPayments ((2024, 6, 1), 0) ((2024, 7, 1), 36000000) exLongTx =
     [interestPayment exLongTx exLongDetails 1000 ((2024, 6, 15), 0)]"
proof -
  have v: "validDate (2029, 1, 15)" by (simp add: validDate_def daysInMonth_def)
  have m: "newDate 2029 (1 - 1) 15 = ((2029, 1, 15), 0)" using v by (rule newDate_valid)
  show ?thesis
    using exLong_fastForward m
    by (simp add: txPayments_def exLong_fields exLong_more Let_def monthsToAddOf_def startOfDay_def)
qed

lemma futureLimit_jun2024:
  "setDate ((2024, 6, 1), 36000000) (getDate (startOfDay ((2024, 6, 1), 36000000)) + 30)
     = ((2024, 7, 1), 36000000)"
proof -
  have "daysInMonth 2024 6 = 30" by (simp add: daysInMonth_def)
  then have "addDays 30 (2024, 6, 1) = (2024, 7, 1)"
    using addDays_overflow [of 2024 6 30] by simp
  then show ?thesis
    by (simp add: setDate_def getDate_def getFullYear_def getMonth_def MakeDay_def startOfDay_def)
qed

lemma exLong_upcoming:
  "upcomingPayments ((2024, 6, 1), 36000000) [exLongTx] =
     [interestPayment exLongTx exLongDetails 1000 ((2024, 6, 15), 0)]"
proof -
  have s: "startOfDay ((2024, 6, 1), 36000000) = ((2024, 6, 1), 0)" by (simp add: startOfDay_def)
  show ?thesis
    unfolding upcomingPayments_def Let_def futureLimit_jun2024
    by (simp add: s exLong_payments)
qed

lemma windowEnd_all_jun2024: "windowEnd ((2024, 6, 1), 0) AllFuture = ((2029, 6, 1), 0)"
  by (simp add: windowEnd_def setFullYear_def getDate_def getFullYear_def getMonth_def
      MakeDay_def addDays_def)

text \<open>
  C4. The calendar emits every projected interest occurrence whose date falls inside the
  window and does not exceed the maturity date, however many there are. The loop of the
  calendar stops after 50 iterations, and it spends them from the first period after the
  start date on, past periods included. For a monthly investment of 15 January 2019 that
  matures on 15 January 2029, on 1 June 2024 the 65th occurrence, 15 June 2024, lies in
  the window of 30 days and before maturity: the calendar shows no interest event, neither
  in that window nor in the window of five years, while the dashboard, whose loop has no
  such bound, lists the payment of 15 June 2024.
\<close>

theorem calendar_omits_interest_after_50_periods:
  "date exLongTx = (2019, 1, 15) \<and> returnPeriod exLongDetails = Monthly \<and>
   maturityDate exLongDetails = Some (2029, 1, 15) \<and>
   periodicInterestAmount exLongDetails = Some 1000 \<and>
   periodDate 2019 1 15 1 65 = ((2024, 6, 15), 0) \<and>
   startOfDay ((2024, 6, 1), 36000000) \<le> ((2024, 6, 15), 0) \<and>
   ((2024, 6, 15), 0) \<le> windowEnd (startOfDay ((2024, 6, 1), 36000000)) Next30 \<and>
   ((2024, 6, 15), 0) \<le> startOfDay (parseDate (- 330) (2029, 1, 15)) \<and>
   allEvents (- 330) ((2024, 6, 1), 36000000) Next30 [exLongTx] = [] \<and>
   allEvents (- 330) ((2024, 6, 1), 36000000) AllFuture [exLongTx]
     = [principalEvent exLongTx exLongDetails ((2029, 1, 15), 0)] \<and>
   upcomingPayments ((2024, 6, 1), 36000000) [exLongTx]
     = [interestPayment exLongTx exLongDetails 1000 ((2024, 6, 15), 0)]"
proof -
  have rp: "returnPeriod exLongDetails \<noteq> Maturity" by (simp add: exLong_fields)
  have nz: "(1000 :: real) \<noteq> 0" by simp
  have m: "monthsToAddOf (returnPeriod exLongDetails) = 1"
    by (simp add: exLong_fields monthsToAddOf_def)
  have p: "startOfDay (parseDate (- 330) (2029, 1, 15)) = ((2029, 1, 15), 0)"
    by (simp add: startOfDay_parseDate_east)
  have past: "specAddMonths (2019, 1, 15) (int N) < (2024, 6, 1)" if "N < 51" for N
  proof -
    have "specAddMonths (2019, 1, 15) (int N) \<le> specAddMonths (2019, 1, 15) 50"
      using that specAddMonths_mono [of "int N" 50 "(2019, 1, 15)"] by (cases "N = 50") auto
    moreover have "(2023, 3, 15) < ((2024, 6, 1) :: ymd)" by simp
    ultimately show ?thesis unfolding exLong_dates by (rule le_less_trans)
  qed
  have nW: "\<not> ((2024, 6, 1), 0 :: int)
      \<le> (specAddMonths (2019, 1, 15) (monthsToAddOf (returnPeriod exLongDetails) * int N), 0)"
    if "N < 51" for N
  proof
    assume "((2024, 6, 1), 0 :: int)
      \<le> (specAddMonths (2019, 1, 15) (monthsToAddOf (returnPeriod exLongDetails) * int N), 0)"
    then have "(2024, 6, 1) \<le> specAddMonths (2019, 1, 15) (int N)"
      unfolding m by (simp only: mult_1) (rule pair_le_fst)
    then show False using past [OF that] by (simp add: leD)
  qed
  have tx: "txEvents (- 330) ((2024, 6, 1), 0) endDate [] exLongTx =
      (if ((2024, 6, 1) :: ymd, 0 :: int) \<le> ((2029, 1, 15), 0) \<and> ((2029, 1, 15), 0) \<le> endDate
       then [principalEvent exLongTx exLongDetails ((2029, 1, 15), 0)] else [])" for endDate
  proof -
    have "txEvents (- 330) ((2024, 6, 1), 0) endDate [] exLongTx =
      (if ((2024, 6, 1), 0) \<le> startOfDay (parseDate (- 330) (2029, 1, 15))
          \<and> startOfDay (parseDate (- 330) (2029, 1, 15)) \<le> endDate
       then [principalEvent exLongTx exLongDetails (startOfDay (parseDate (- 330) (2029, 1, 15)))]
       else [])"
      by (rule txEvents_past_periods [OF exLong_fields(1) valid_2019 exLong_fields(2,6) rp
            exLong_fields(7) nz]) (rule nW)
    then show ?thesis by (simp only: p)
  qed
  have s: "startOfDay ((2024, 6, 1), 36000000) = ((2024, 6, 1), 0)"
    by (simp add: startOfDay_def)
  have a30: "allEvents (- 330) ((2024, 6, 1), 36000000) Next30 [exLongTx] = []"
    by (simp add: allEvents_def s windowEnd_jun2024 tx)
  have a5: "allEvents (- 330) ((2024, 6, 1), 36000000) AllFuture [exLongTx]
      = [principalEvent exLongTx exLongDetails ((2029, 1, 15), 0)]"
    by (simp add: allEvents_def s windowEnd_all_jun2024 tx)
  have d: "periodDate 2019 1 15 1 65 = ((2024, 6, 15), 0)"
    by (simp add: periodDate_valid [OF valid_2019] exLong_dates)
  show ?thesis
    unfolding a30 a5 exLong_upcoming d
    by (simp add: exLong_fields p s windowEnd_jun2024)
qed

section \<open>The principal-maturity event\<close>






section \<open>The investor ledger\<close>

text \<open>
  What holds of the investor ledger. The loop throws exactly when a transaction has the
  key 'constructor' or '__proto__'. Otherwise the ledger groups the transactions under the
  lower-cased investor name (income by \<open>investorDetails.investorName\<close>, expense by
  category): the accounts have distinct keys, the displayed name is the casing of the last
  income entry when there is one, the principal is summed over the income transactions of
  the key and the payments over its expense transactions, and the interest is the sum of
  the entries that \<open>generateInterestEntries\<close> produces for those income transactions.
\<close>

lemma investorAccounts_throws:
  "investorAccounts off now txs = Inl TypeError \<longleftrightarrow> (\<exists>t \<in> set txs. inheritedKey t)"
proof (cases "\<exists>t \<in> set txs. inheritedKey t")
  case True
  then have "forEachTx off now [] txs = Inl TypeError" by (rule forEachTx_throws) simp
  then show ?thesis using True by (simp add: investorAccounts_def)
next
  case False
  then have "forEachTx off now [] txs = Inr (foldl (stepOk off now) [] txs)"
    by (intro forEachTx_ok) simp
  then show ?thesis using False by (simp add: investorAccounts_def)
qed

lemma investor_ledger_sums:
  assumes "investorAccounts off now txs = Inr accs" and "acc \<in> set accs"
  shows "totalPrincipal acc = ledgerPrincipal (toLowerCase (accName acc)) txs
       \<and> totalInterestAccrued acc = generatedInterest off now (toLowerCase (accName acc)) txs
       \<and> totalPaid acc = ledgerPaid (toLowerCase (accName acc)) txs
       \<and> netBalance acc = ledgerPrincipal (toLowerCase (accName acc)) txs
            + generatedInterest off now (toLowerCase (accName acc)) txs
            - ledgerPaid (toLowerCase (accName acc)) txs
       \<and> (filter (incomeOf (toLowerCase (accName acc))) txs = [] \<or>
            accName acc = investorNameOf (last (filter (incomeOf (toLowerCase (accName acc))) txs)))
       \<and> distinct (map (\<lambda>a. toLowerCase (accName a)) accs)"
proof -
  have "investorAccounts off now txs \<noteq> Inl TypeError" using assms(1) by simp
  then have ok: "\<forall>t \<in> set txs. \<not> inheritedKey t" by (simp add: investorAccounts_throws)
  define al where "al = foldl (stepOk off now) [] txs"
  have f: "forEachTx off now [] txs = Inr al" unfolding al_def using ok by (rule forEachTx_ok)
  have accs: "accs = filter (\<lambda>acc. 0 < totalPrincipal acc \<or> 0 < totalPaid acc) (objectValues al)"
    using assms(1) by (simp add: investorAccounts_def f)
  have "acc \<in> set (map snd al)" using assms(2) by (auto simp: accs objectValues_set)
  then have g: "goodAccount off now (toLowerCase (accName acc)) txs acc"
    unfolding al_def by (rule ledger_lookup)
  have "distinct (map fst al)"
    using ledgerInv_foldl [of off now txs] by (simp add: ledgerInv_def al_def)
  then have "distinct (map (\<lambda>a. toLowerCase (accName a)) (map snd al))"
    unfolding al_def by (simp only: ledger_keys)
  then have "distinct (map (\<lambda>a. toLowerCase (accName a)) (objectValues al))"
    by (rule objectValues_distinct)
  then have d: "distinct (map (\<lambda>a. toLowerCase (accName a)) accs)"
    unfolding accs by (rule distinct_map_filter')
  show ?thesis
    using g d by (simp add: goodAccount_def netBalance_def)
qed

lemma exPayment_fields:
  "txType exPaymentTx = EXPENSE" "category exPaymentTx = ''asha''" "amount exPaymentTx = 1200"
  "investorDetails exPaymentTx = None"
  by (simp_all add: exPaymentTx_def)

lemma exMonthly_more: "txType exMonthlyTx = INCOME" "investorName exMonthlyDetails = ''Asha''"
  by (simp_all add: exMonthlyTx_def exMonthlyDetails_def)

lemma lower_asha: "toLowerCase ''Asha'' = ''asha''" "toLowerCase ''asha'' = ''asha''"
  by (simp_all add: toLowerCase_def lowerChar_def)

lemma asha_plain: "arrayIndex ''asha'' = None" "''asha'' \<notin> set inheritedKeys"
  by (simp_all add: arrayIndex_def digitValue_def inheritedKeys_def)

lemma ex_keys: "keyOf exMonthlyTx = Some ''asha''" "keyOf exPaymentTx = Some ''asha''"
  by (simp_all add: keyOf_def exMonthly_fields exMonthly_more exPayment_fields lower_asha)

lemma ex_not_inherited: "\<not> inheritedKey exMonthlyTx" "\<not> inheritedKey exPaymentTx"
  by (simp_all add: inheritedKey_def ex_keys asha_plain)

text \<open>
  An investment of 31 January 2024 with two monthly entries due on 10 April 2024, and a
  payment of 1200 to 'asha': the account of 'Asha' shows the principal 120000, the
  interest 2400, the payment 1200 and the balance 121200.
\<close>

lemma investor_ledger_example:
  "map_sum id (map accountSums)
     (investorAccounts 0 ((2024, 4, 10), 36000000) [exMonthlyTx, exPaymentTx])
   = Inr [(''Asha'', 120000, 2400, 1200, 121200)]"
  by (simp add: investorAccounts_def accountStep_ok ex_not_inherited stepOk_def ex_keys applyTx_def
      Let_def exMonthly_fields exMonthly_more exPayment_fields exMonthly_entries interestEntry_def
      investorNameOf_def hasInvestorName_def objectValues_def asha_plain accountSums_def
      netBalance_def)

lemma exMonthly_spec_dates:
  "filter (\<lambda>d. d \<le> (2024, 4, 10)) (specDueDates (2024, 1, 31) 1 (2025, 1, 31) (Suc 0))
     = [(2024, 2, 29), (2024, 3, 31)]"
proof -
  have later: "\<not> d \<le> (2024, 4, 10)" if "d \<in> set (specDueDates (2024, 1, 31) 1 (2025, 1, 31) N)" "3 \<le> N" for d N
    using that
  proof (induction "(2024, 1, 31) :: ymd" "1 :: int" "(2025, 1, 31) :: ymd" N rule: specDueDates.induct)
    case (1 N)
    have a: "(2024, 4, 10) < specAddMonths (2024, 1, 31) (int N)"
    proof -
      have "specAddMonths (2024, 1, 31) 3 \<le> specAddMonths (2024, 1, 31) (int N)"
        using 1(3) specAddMonths_mono [of 3 "int N" "(2024, 1, 31)"] by (cases "N = 3") auto
      moreover have "specAddMonths (2024, 1, 31) 3 = (2024, 4, 30)"
        by (simp add: specAddMonths_def) (simp add: daysInMonth_def)
      moreover have "(2024, 4, 10) < ((2024, 4, 30) :: ymd)" by simp
      ultimately show ?thesis by (simp only: less_le_trans)
    qed
    show ?case
    proof (cases "(2025, 1, 31) < specAddMonths (2024, 1, 31) (1 * int N)")
      case True
      then show ?thesis using 1(2) by (subst (asm) specDueDates_unfold) simp
    next
      case False
      then have "d = specAddMonths (2024, 1, 31) (int N) \<or>
          d \<in> set (specDueDates (2024, 1, 31) 1 (2025, 1, 31) (Suc N))"
        using 1(2) by (subst (asm) specDueDates_unfold) simp
      then show ?thesis
      proof
        assume "d = specAddMonths (2024, 1, 31) (int N)"
        then show ?thesis using a by (simp add: not_le)
      next
        assume "d \<in> set (specDueDates (2024, 1, 31) 1 (2025, 1, 31) (Suc N))"
        then show ?thesis using 1(1) False 1(3) by simp
      qed
    qed
  qed
  have s: "specAddMonths (2024, 1, 31) 1 = (2024, 2, 29)" "specAddMonths (2024, 1, 31) 2 = (2024, 3, 31)"
    by (simp_all add: specAddMonths_def) (simp_all add: daysInMonth_def isLeap_def)
  have "filter (\<lambda>d. d \<le> (2024, 4, 10)) (specDueDates (2024, 1, 31) 1 (2025, 1, 31) 3) = []"
    using later [of _ 3] by (auto simp: filter_empty_conv)
  then show ?thesis
    apply (subst specDueDates_unfold)
    apply (simp add: s)
    apply (subst specDueDates_unfold)
    apply (simp add: s numeral_3_eq_3)
    done
qed

text \<open>
  For this input the wording of the specification gives the same sums: the projected due
  events up to 10 April 2024 are those of 29 February and 31 March.
\<close>

lemma investor_ledger_example_spec:
  "specInterestEvents (2024, 4, 10) exMonthlyTx = [((2024, 2, 29), 1200), ((2024, 3, 31), 1200)] \<and>
   ledgerPrincipal ''asha'' [exMonthlyTx, exPaymentTx] = 120000 \<and>
   ledgerInterest (2024, 4, 10) ''asha'' [exMonthlyTx, exPaymentTx] = 2400 \<and>
   ledgerPaid ''asha'' [exMonthlyTx, exPaymentTx] = 1200 \<and>
   ledgerBalance (2024, 4, 10) ''asha'' [exMonthlyTx, exPaymentTx] = 121200"
proof -
  have e: "specInterestEvents (2024, 4, 10) exMonthlyTx
      = [((2024, 2, 29), 1200), ((2024, 3, 31), 1200)]"
    by (simp add: specInterestEvents_def exMonthly_fields specMonthsPerPeriod_def
        specPeriodsPerYear_def exMonthly_spec_dates)
  have s: "ledgerPrincipal ''asha'' [exMonthlyTx, exPaymentTx] = 120000"
    "ledgerInterest (2024, 4, 10) ''asha'' [exMonthlyTx, exPaymentTx] = 2400"
    "ledgerPaid ''asha'' [exMonthlyTx, exPaymentTx] = 1200"
    by (simp_all add: ledgerPrincipal_def ledgerInterest_def ledgerPaid_def incomeOf_def expenseOf_def
        ex_keys exMonthly_fields exMonthly_more exPayment_fields e)
  show ?thesis by (simp add: e s ledgerBalance_def)
qed

lemma exQuarterly_more: "txType exQuarterlyTx = INCOME" "investorName exQuarterlyDetails = ''Asha''"
  by (simp_all add: exQuarterlyTx_def exQuarterlyDetails_def)

lemma exQuarterly_entries:
  "generateInterestEntries (- 330) ((2024, 5, 1), 36000000) exQuarterlyTx
     = [interestEntry (- 330) exQuarterlyTx 3600 Quarterly 1 ((2024, 4, 15), 0)]"
proof -
  have a: "interestAmountOf exQuarterlyTx exQuarterlyDetails = 3600"
    by (simp add: interestAmountOf_def exQuarterly_fields)
  have p: "parseDate (- 330) (2024, 3, 15) = ((2024, 3, 15), 19800000)"
    by (simp add: parseDate_east)
  have "generateInterestEntries (- 330) ((2024, 5, 1), 36000000) exQuarterlyTx =
      interestLoop (- 330) ((2024, 5, 1), msPerDay - 1) exQuarterlyTx exQuarterlyDetails 3600 3 1 1 []"
    by (subst generateInterestEntries_periodic [OF exQuarterly_fields(2)])
       (simp_all add: a exQuarterly_fields monthsToAddOf_def endOfDay_def)
  also have "\<dots> = [interestEntry (- 330) exQuarterlyTx 3600 Quarterly 1 ((2024, 4, 15), 0)]"
    by (subst interestLoop_unfold [OF exQuarterly_fields(1)])
       (simp add: jan15_dates exQuarterly_fields p)
  finally show ?thesis .
qed

lemma exQuarterly_key: "keyOf exQuarterlyTx = Some ''asha''" "\<not> inheritedKey exQuarterlyTx"
  by (simp_all add: inheritedKey_def keyOf_def exQuarterly_fields exQuarterly_more lower_asha asha_plain)

lemma exQuarterly_accounts:
  "map_sum id (map accountSums)
     (investorAccounts (- 330) ((2024, 5, 1), 36000000) [exQuarterlyTx])
   = Inr [(''Asha'', 120000, 3600, 0, 123600)]"
  by (simp add: investorAccounts_def accountStep_ok exQuarterly_key stepOk_def applyTx_def
      Let_def exQuarterly_fields exQuarterly_more exQuarterly_entries interestEntry_def
      investorNameOf_def hasInvestorName_def objectValues_def asha_plain accountSums_def
      netBalance_def)

lemma exQuarterly_events: "specInterestEvents (2024, 5, 1) exQuarterlyTx = []"
proof -
  have "specAddMonths (2024, 1, 15) 3 = (2024, 4, 15)"
    by (simp add: specAddMonths_def) (simp add: daysInMonth_def)
  then have "specDueDates (2024, 1, 15) 3 (2024, 3, 15) (Suc 0) = []"
    by (subst specDueDates_unfold) simp
  then show ?thesis
    by (simp add: specInterestEvents_def exQuarterly_fields specMonthsPerPeriod_def)
qed

lemma exConstructor_throws:
  "investorAccounts (- 330) ((2024, 5, 1), 36000000) [exConstructorTx] = Inl TypeError"
proof -
  have "toLowerCase ''Constructor'' = ''constructor''"
    by (simp add: toLowerCase_def lowerChar_def)
  then have "inheritedKey exConstructorTx"
    by (simp add: inheritedKey_def keyOf_def exConstructorTx_def inheritedKeys_def)
  then show ?thesis by (simp add: investorAccounts_throws)
qed

text \<open>
  C8. Each reported outstanding balance is the investor's principal summed over the income
  transactions, plus the interest summed over the projected due events up to today, minus
  the payments summed over the expense transactions of the investor's name. The ledger
  sums the entries of its own projection, which emits the first entry without testing it
  against the maturity date: for the single quarterly investment of 120000 of
  15 January 2024 that matures on 15 March 2024, it reports on 1 May 2024 an interest of
  3600 and a balance of 123600, where no projected event is due, the first one falling
  after maturity, and the balance is 120000. And for a list that holds an expense of the
  category 'Constructor' the ledger reports nothing: the loop throws a TypeError.
\<close>

theorem ledger_balance_counts_interest_after_maturity:
  "map_sum id (map accountSums)
     (investorAccounts (- 330) ((2024, 5, 1), 36000000) [exQuarterlyTx])
     = Inr [(''Asha'', 120000, 3600, 0, 123600)] \<and>
   keyOf exQuarterlyTx = Some ''asha'' \<and>
   specInterestEvents (2024, 5, 1) exQuarterlyTx = [] \<and>
   ledgerPrincipal ''asha'' [exQuarterlyTx] = 120000 \<and>
   ledgerInterest (2024, 5, 1) ''asha'' [exQuarterlyTx] = 0 \<and>
   ledgerPaid ''asha'' [exQuarterlyTx] = 0 \<and>
   ledgerBalance (2024, 5, 1) ''asha'' [exQuarterlyTx] = 120000 \<and>
   investorAccounts (- 330) ((2024, 5, 1), 36000000) [exConstructorTx] = Inl TypeError"
proof -
  have i: "incomeOf ''asha'' exQuarterlyTx" "\<not> expenseOf ''asha'' exQuarterlyTx"
    by (simp_all add: incomeOf_def expenseOf_def exQuarterly_key exQuarterly_fields exQuarterly_more)
  have s: "ledgerPrincipal ''asha'' [exQuarterlyTx] = 120000"
    "ledgerInterest (2024, 5, 1) ''asha'' [exQuarterlyTx] = 0"
    "ledgerPaid ''asha'' [exQuarterlyTx] = 0"
    by (simp_all add: ledgerPrincipal_def ledgerInterest_def ledgerPaid_def i exQuarterly_fields
        exQuarterly_events)
  show ?thesis
    unfolding exQuarterly_accounts exConstructor_throws
    by (simp add: exQuarterly_key exQuarterly_events s ledgerBalance_def)
qed

section \<open>Reads of absent keys\<close>

text \<open>
  C9. A read of an absent storage key returns empty or default data: \<open>getUsers\<close> the
  empty list, \<open>getTransactions\<close> the empty list for every user id, and
  \<open>getCategories\<close> the default category groups, which it also stores. The default
  groups are the array \<open>DEFAULT_CATEGORIES\<close> as it stands in memory, the listed
  constant when nothing has pushed to it.
\<close>

theorem absent_keys_default:
  "(stUsers st = None \<longrightarrow> getUsers st = []) \<and>
   (stTransactions st = None \<longrightarrow> getTransactions st uid = []) \<and>
   (stCategories st = None \<longrightarrow>
      getCategories st = (defaultCategories st, st \<lparr> stCategories := Some (defaultCategories st) \<rparr>)) \<and>
   (stCategories st = None \<and> defaultCategories st = DEFAULT_CATEGORIES \<longrightarrow>
      fst (getCategories st) = DEFAULT_CATEGORIES \<and>
      stCategories (snd (getCategories st)) = Some DEFAULT_CATEGORIES)"
  by (simp add: getUsers_def getTransactions_def getCategories_def)

theorem absent_keys_default_witness:
  "stUsers emptyStore = None \<and> stTransactions emptyStore = None \<and> stCategories emptyStore = None \<and>
   getUsers emptyStore = [] \<and> getTransactions emptyStore ''u1'' = [] \<and>
   fst (getCategories emptyStore) = DEFAULT_CATEGORIES \<and>
   stCategories (snd (getCategories emptyStore)) = Some DEFAULT_CATEGORIES"
  using absent_keys_default [of emptyStore "''u1''"] by (simp add: emptyStore_def)

section \<open>Adding an investor to the categories\<close>

text \<open>
  C10, amended. On categories (the stored ones, or the defaults when the key is absent)
  for which \<open>getCategories\<close> has no migration pending and which hold an
  'Investor Payments' group: calling \<open>ensureInvestorCategory\<close> when the key is present
  and the group already holds an item equal up to case leaves the state unchanged; calling
  it twice with the same name gives the state of calling it once; and a group whose items
  are distinct up to case keeps them distinct up to case.
\<close>

theorem ensureInvestorCategory_idempotent:
  assumes "cats = (case stCategories st of None \<Rightarrow> defaultCategories st | Some stored \<Rightarrow> stored)"
    and "\<not> snd (migrate cats)"
    and "find (\<lambda>c. group c = ''Investor Payments'') cats = Some g"
  shows "(stCategories st \<noteq> None \<and>
          list_ex (\<lambda>item. toLowerCase item = toLowerCase name) (items g) \<longrightarrow>
            ensureInvestorCategory name st = st)
       \<and> ensureInvestorCategory name (ensureInvestorCategory name st) = ensureInvestorCategory name st
       \<and> (distinct (map toLowerCase (items g)) \<longrightarrow>
            (case stCategories (ensureInvestorCategory name st) of None \<Rightarrow> False
             | Some cats' \<Rightarrow>
                 (case find (\<lambda>c. group c = ''Investor Payments'') cats' of None \<Rightarrow> False
                  | Some g' \<Rightarrow> distinct (map toLowerCase (items g')))))"
proof (cases "stCategories st")
  case (Some stored)
  then have s: "stCategories st = Some cats" using assms(1) by simp
  have nm: "noMigration cats" using assms(2) migrate_unchanged [of cats] by simp
  show ?thesis using ensure_idem_stored [OF s nm assms(3), of name] by simp
next
  case None
  then have c: "defaultCategories st = cats" using assms(1) by simp
  have nm: "noMigration cats" using assms(2) migrate_unchanged [of cats] by simp
  have f: "find (\<lambda>c. group c = ''Investor Payments'') (defaultCategories st) = Some g"
    using assms(3) by (simp add: c)
  note e = ensure_fresh [OF None f, of name]
  show ?thesis
  proof (cases "list_ex (\<lambda>item. toLowerCase item = toLowerCase name) (items g)")
    case True
    define st' where "st' = st \<lparr> stCategories := Some cats \<rparr>"
    have e1: "ensureInvestorCategory name st = st'" using e True by (simp add: st'_def c)
    have s': "stCategories st' = Some cats" by (simp add: st'_def)
    have e2: "ensureInvestorCategory name st' = st'"
      using s' nm assms(3) True by (rule ensure_again)
    show ?thesis using None by (simp add: e1 e2 s' assms(3))
  next
    case False
    define cats' where "cats' = updateGroup ''Investor Payments'' (\<lambda>its. its @ [name]) cats"
    define st' where "st' = st \<lparr> stCategories := Some cats', defaultCategories := cats' \<rparr>"
    have e1: "ensureInvestorCategory name st = st'" using e False by (simp add: st'_def cats'_def c)
    have s': "stCategories st' = Some cats'" by (simp add: st'_def)
    have nm': "noMigration cats'"
      unfolding cats'_def using nm assms(3) by (intro noMigration_updateGroup) simp_all
    have f': "find (\<lambda>c. group c = ''Investor Payments'') cats' = Some (g \<lparr> items := items g @ [name] \<rparr>)"
      by (simp add: cats'_def find_updateGroup assms(3))
    have e2: "ensureInvestorCategory name st' = st'"
      by (rule ensure_again [OF s' nm' f']) (simp add: appended_exists)
    have "toLowerCase name \<notin> set (map toLowerCase (items g))"
      using False by (auto simp: list_ex_iff)
    then have d: "distinct (map toLowerCase (items g)) \<Longrightarrow> distinct (map toLowerCase (items g @ [name]))"
      by simp
    show ?thesis using None False d by (simp add: e1 e2 s' f')
  qed
qed

lemma default_settled:
  "\<not> snd (migrate DEFAULT_CATEGORIES)"
  "find (\<lambda>c. group c = ''Investor Payments'') DEFAULT_CATEGORIES =
     Some \<lparr> group = ''Investor Payments'',
            items = [''Investor Funds'', ''Interest Payment'', ''Principal Return''] \<rparr>"
  by (simp_all add: DEFAULT_CATEGORIES_def migrate_def migration1_def ensureInvestments_def
      moveItem_def)

theorem ensureInvestorCategory_idempotent_witness:
  "ensureInvestorCategory ''investor funds'' settledStore = settledStore \<and>
   ensureInvestorCategory ''Asha'' (ensureInvestorCategory ''Asha'' settledStore)
     = ensureInvestorCategory ''Asha'' settledStore \<and>
   ensureInvestorCategory ''Asha'' (ensureInvestorCategory ''Asha'' emptyStore)
     = ensureInvestorCategory ''Asha'' emptyStore"
proof -
  have s: "DEFAULT_CATEGORIES = (case stCategories settledStore of None \<Rightarrow> defaultCategories settledStore
      | Some stored \<Rightarrow> stored)"
    by (simp add: settledStore_def)
  have e: "DEFAULT_CATEGORIES = (case stCategories emptyStore of None \<Rightarrow> defaultCategories emptyStore
      | Some stored \<Rightarrow> stored)"
    by (simp add: emptyStore_def)
  have x: "list_ex (\<lambda>item. toLowerCase item = toLowerCase ''investor funds'')
      (items \<lparr> group = ''Investor Payments'',
            items = [''Investor Funds'', ''Interest Payment'', ''Principal Return''] \<rparr>)"
    by (simp add: toLowerCase_def lowerChar_def)
  have n: "stCategories settledStore \<noteq> None" by (simp add: settledStore_def)
  have a: "ensureInvestorCategory ''investor funds'' settledStore = settledStore"
    using ensureInvestorCategory_idempotent [OF s default_settled, of "''investor funds''"] x n
    by blast
  have b: "ensureInvestorCategory ''Asha'' (ensureInvestorCategory ''Asha'' settledStore)
     = ensureInvestorCategory ''Asha'' settledStore"
    using ensureInvestorCategory_idempotent [OF s default_settled, of "''Asha''"] by blast
  have c: "ensureInvestorCategory ''Asha'' (ensureInvestorCategory ''Asha'' emptyStore)
     = ensureInvestorCategory ''Asha'' emptyStore"
    using ensureInvestorCategory_idempotent [OF e default_settled, of "''Asha''"] by blast
  show ?thesis using a b c by (intro conjI)
qed

lemma lower_bob: "toLowerCase ''Bob'' = ''bob''" "toLowerCase ''bob'' = ''bob''"
  by (simp_all add: toLowerCase_def lowerChar_def)

text \<open>
  C10, as stated, fails. Stored categories of an older version, without an 'Investments'
  group, are migrated and stored again by the call although 'bob' is already there. And
  on stored categories without an 'Investor Payments' group whose 'Personal' group holds
  'Investor Funds', the first call adds the group and the second call migrates into it.
\<close>

theorem ensureInvestorCategory_counterexample:
  "list_ex (\<lambda>item. toLowerCase item = toLowerCase ''Bob'') [''bob''] \<and>
   stCategories (ensureInvestorCategory ''Bob'' legacyStore) =
     Some [\<lparr> group = ''Investor Payments'', items = [''bob''] \<rparr>,
           \<lparr> group = ''Investments'', items = [''Mutual Funds'', ''Stocks''] \<rparr>,
           \<lparr> group = ''Personal'', items = [''Salary''] \<rparr>] \<and>
   ensureInvestorCategory ''Bob'' legacyStore \<noteq> legacyStore \<and>
   stCategories (ensureInvestorCategory ''Bob'' oldStore) =
     Some [\<lparr> group = ''Investments'', items = [''Stocks''] \<rparr>,
           \<lparr> group = ''Personal'', items = [''Investor Funds''] \<rparr>,
           \<lparr> group = ''Investor Payments'', items = [''Bob''] \<rparr>] \<and>
   stCategories (ensureInvestorCategory ''Bob'' (ensureInvestorCategory ''Bob'' oldStore)) =
     Some [\<lparr> group = ''Investments'', items = [''Stocks''] \<rparr>,
           \<lparr> group = ''Personal'', items = [] \<rparr>,
           \<lparr> group = ''Investor Payments'', items = [''Investor Funds'', ''Bob''] \<rparr>]"
proof -
  have m1: "migrate [\<lparr> group = ''Investor Payments'', items = [''bob''] \<rparr>,
                     \<lparr> group = ''Personal'', items = [''Salary''] \<rparr>] =
      ([\<lparr> group = ''Investor Payments'', items = [''bob''] \<rparr>,
        \<lparr> group = ''Investments'', items = [''Mutual Funds'', ''Stocks''] \<rparr>,
        \<lparr> group = ''Personal'', items = [''Salary''] \<rparr>], True)"
    by (simp add: migrate_def migration1_def ensureInvestments_def moveItem_def)
  have a: "stCategories (ensureInvestorCategory ''Bob'' legacyStore) =
     Some [\<lparr> group = ''Investor Payments'', items = [''bob''] \<rparr>,
           \<lparr> group = ''Investments'', items = [''Mutual Funds'', ''Stocks''] \<rparr>,
           \<lparr> group = ''Personal'', items = [''Salary''] \<rparr>]"
    by (simp add: ensureInvestorCategory_def getCategories_def legacyStore_def m1 lower_bob)
  have b: "ensureInvestorCategory ''Bob'' legacyStore \<noteq> legacyStore"
  proof
    assume "ensureInvestorCategory ''Bob'' legacyStore = legacyStore"
    then have "stCategories (ensureInvestorCategory ''Bob'' legacyStore) = stCategories legacyStore"
      by simp
    then show False unfolding a by (simp add: legacyStore_def)
  qed
  have m2: "migrate [\<lparr> group = ''Investments'', items = [''Stocks''] \<rparr>,
                     \<lparr> group = ''Personal'', items = [''Investor Funds''] \<rparr>] =
      ([\<lparr> group = ''Investments'', items = [''Stocks''] \<rparr>,
        \<lparr> group = ''Personal'', items = [''Investor Funds''] \<rparr>], False)"
    by (simp add: migrate_def migration1_def ensureInvestments_def moveItem_def)
  have c: "ensureInvestorCategory ''Bob'' oldStore =
      oldStore \<lparr> stCategories := Some [\<lparr> group = ''Investments'', items = [''Stocks''] \<rparr>,
           \<lparr> group = ''Personal'', items = [''Investor Funds''] \<rparr>,
           \<lparr> group = ''Investor Payments'', items = [''Bob''] \<rparr>] \<rparr>"
    by (simp add: ensureInvestorCategory_def getCategories_def oldStore_def m2 lower_bob
        saveCategories_def)
  have m3: "migrate [\<lparr> group = ''Investments'', items = [''Stocks''] \<rparr>,
           \<lparr> group = ''Personal'', items = [''Investor Funds''] \<rparr>,
           \<lparr> group = ''Investor Payments'', items = [''Bob''] \<rparr>] =
      ([\<lparr> group = ''Investments'', items = [''Stocks''] \<rparr>,
           \<lparr> group = ''Personal'', items = [] \<rparr>,
           \<lparr> group = ''Investor Payments'', items = [''Investor Funds'', ''Bob''] \<rparr>], True)"
    by (simp add: migrate_def migration1_def ensureInvestments_def moveItem_def unshiftMissing_def)
  have d: "stCategories (ensureInvestorCategory ''Bob'' (ensureInvestorCategory ''Bob'' oldStore)) =
     Some [\<lparr> group = ''Investments'', items = [''Stocks''] \<rparr>,
           \<lparr> group = ''Personal'', items = [] \<rparr>,
           \<lparr> group = ''Investor Payments'', items = [''Investor Funds'', ''Bob''] \<rparr>]"
    unfolding c
    by (simp add: ensureInvestorCategory_def getCategories_def oldStore_def m3 lower_bob
        toLowerCase_def lowerChar_def)
  show ?thesis using a b d by (simp add: c lower_bob)
qed

end
